theory Spec2Isabelle
  imports Main
begin

section \<open>JavaScript values used by the script\<close>

text \<open>
  The script is one closure over a handful of module variables
  (\<open>currentProjectIndex\<close>, \<open>projectsData\<close>, \<open>isOverlayOpen\<close>,
  \<open>lastFocusedElement\<close>, \<open>armedGridIndex\<close>, \<open>armedGridResetTimer\<close>) and the DOM.
  A property of a parsed project is a string or absent (\<open>undefined\<close>); a test
  \<open>if (x)\<close> on such a value is false for \<open>undefined\<close> and for the empty string.
  Properties of other JSON types (an \<open>index\<close> given as a number, say) are not modelled.
\<close>

definition truthy :: "string option \<Rightarrow> bool" where
  "truthy v = (case v of None \<Rightarrow> False | Some s \<Rightarrow> s \<noteq> [])"

text \<open>\<open>xs[i]\<close> on an array: \<open>undefined\<close> outside the bounds, never an exception.\<close>

definition array_get :: "'a list \<Rightarrow> int \<Rightarrow> 'a option" where
  "array_get xs i = (if 0 \<le> i \<and> i < int (length xs) then Some (xs ! nat i) else None)"

text \<open>
  Strings are kept as their UTF-8 bytes. \<open>toLowerCase\<close>, \<open>toUpperCase\<close> and \<open>trim\<close> of
  \<open>String.prototype\<close> belong to the language and follow the Unicode tables; the script's
  functions take them as they are, so the model takes them as a parameter \<open>B\<close>, and
  what is proved holds whatever these three functions do. The other string operations
  the script uses (literal prefixes, \<open>slice(6)\<close> behind \<open>label:\<close>, the character classes
  \<open>&\<close> and \<open>[^a-z0-9]\<close>) only look at ASCII characters, which are single bytes.
\<close>

record builtins =
  toLowerCase :: "string \<Rightarrow> string"
  toUpperCase :: "string \<Rightarrow> string"
  trim :: "string \<Rightarrow> string"

text \<open>
  The three functions on ASCII text, for the examples: on a string of ASCII characters,
  and on one without cased letters or white space, they are what the language computes.
\<close>

definition ascii_toLowerCase :: "string \<Rightarrow> string" where
  "ascii_toLowerCase s =
     map (\<lambda>c. case map_of (zip ''ABCDEFGHIJKLMNOPQRSTUVWXYZ'' ''abcdefghijklmnopqrstuvwxyz'') c of
                 None \<Rightarrow> c
               | Some l \<Rightarrow> l) s"

definition ascii_toUpperCase :: "string \<Rightarrow> string" where
  "ascii_toUpperCase s =
     map (\<lambda>c. case map_of (zip ''abcdefghijklmnopqrstuvwxyz'' ''ABCDEFGHIJKLMNOPQRSTUVWXYZ'') c of
                 None \<Rightarrow> c
               | Some u \<Rightarrow> u) s"

definition is_space :: "char \<Rightarrow> bool" where
  "is_space c = (c \<in> set [CHR 0x20, CHR 0x09, CHR 0x0A, CHR 0x0B, CHR 0x0C, CHR 0x0D])"

definition ascii_trim :: "string \<Rightarrow> string" where
  "ascii_trim s = rev (dropWhile is_space (rev (dropWhile is_space s)))"

definition ascii :: builtins where
  "ascii = \<lparr>toLowerCase = ascii_toLowerCase, toUpperCase = ascii_toUpperCase,
             trim = ascii_trim\<rparr>"

datatype js_error = TypeError

record custom_field =
  field_id :: "string option"
  field_label :: "string option"
  field_value :: "string option"

record project =
  slug :: "string option"
  display_title :: "string option"
  title :: "string option"
  index :: "string option"
  description :: "string option"
  description_ko :: "string option"
  location :: "string option"
  duration :: "string option"
  program :: "string option"
  studio :: "string option"
  year :: "string option"
  medium :: "string option"
  series :: "string option"
  team :: "string option"
  custom_fields :: "custom_field list option"
  meta_field_order :: "string list option"

section \<open>The page: module variables and the part of the DOM the controller touches\<close>

datatype element =
    Body
  | GridItemBtn nat
  | OverlayClose
  | OverlayNavPrev
  | OverlayNavNext
  | DetailElement nat nat
  | OtherElement nat

datatype callback = DisarmTimeout | FocusCloseTimeout

record page =
  currentProjectIndex :: int
  projectsData :: "project list"
  isOverlayOpen :: bool
  lastFocusedElement :: "element option"
  armedGridIndex :: int
  armedGridResetTimer :: "nat option"
  overlay :: bool
  hasDetail :: bool
  hasCloseBtn :: bool
  hasPrevBtn :: bool
  hasNextBtn :: bool
  hasScroll :: bool
  gridItemContainers :: nat
  activeElement :: "element option"
  ariaHidden :: bool
  bodyOverlayOpen :: bool
  detailProject :: "project option"
  detailGeneration :: nat
  prevDisabled :: bool
  nextDisabled :: bool
  overlayScrollTop :: nat
  armedClass :: "nat set"
  timers :: "(nat \<times> callback) list"
  timerSeq :: nat

text \<open>
  \<open>overlay\<close> says that \<open>document.getElementById('projectOverlay')\<close> is not null; the
  \<open>has...\<close> flags say which of its children \<open>querySelector\<close> finds.
  \<open>gridItemContainers\<close> is the length of the node list of \<open>.grid-item\<close> elements and
  \<open>armedClass\<close> the set of those carrying the class \<open>grid-item--armed\<close>.
  \<open>detailProject\<close> is the project whose markup was last written into
  \<open>.project-detail\<close>. \<open>timers\<close> are the pending timeouts, by handle.

  A function of the script either returns or throws; the module variables keep what was
  assigned before the throw, so both outcomes carry the page.
\<close>

datatype completion = Returned page | Threw js_error page

fun final :: "completion \<Rightarrow> page" where
  "final (Returned s) = s"
| "final (Threw e s) = s"

fun and_then :: "completion \<Rightarrow> (page \<Rightarrow> completion) \<Rightarrow> completion" where
  "and_then (Returned s) f = f s"
| "and_then (Threw e s) f = Threw e s"

subsection \<open>Focus\<close>

text \<open>
  \<open>el.focus()\<close> moves the focus only to an element that is in the document and can be
  focused; called on any other element it does nothing and the focus stays where it is.
  Of the elements named here the body cannot be focused, a button of the overlay can
  when it exists and is not disabled, and an element of the detail markup can as long as
  that markup is in the document: \<open>DetailElement g k\<close> is the \<open>k\<close>-th focusable
  element of the markup that the \<open>g\<close>-th assignment to \<open>detail.innerHTML\<close> wrote, and
  \<open>detailGeneration\<close> counts these assignments. The grid buttons and the other elements of
  the page are not removed or disabled by the functions modelled here. The style sheet
  is not part of the script and is taken not to hide any of these elements. Disabling
  the button that has the focus does not move the focus in the same task.
\<close>

fun focusable :: "page \<Rightarrow> element \<Rightarrow> bool" where
  "focusable s Body = False"
| "focusable s (GridItemBtn k) = True"
| "focusable s OverlayClose = hasCloseBtn s"
| "focusable s OverlayNavPrev = (hasPrevBtn s \<and> \<not> prevDisabled s)"
| "focusable s OverlayNavNext = (hasNextBtn s \<and> \<not> nextDisabled s)"
| "focusable s (DetailElement g k) = (g = detailGeneration s)"
| "focusable s (OtherElement n) = True"

definition focus :: "element \<Rightarrow> page \<Rightarrow> page" where
  "focus el s = (if focusable s el then s\<lparr>activeElement := Some el\<rparr> else s)"

text \<open>
  When the focused element is removed from the document, \<open>document.activeElement\<close> is
  the body from then on.
\<close>

fun after_removal :: "element option \<Rightarrow> element option" where
  "after_removal (Some (DetailElement g k)) = Some Body"
| "after_removal a = a"

text \<open>
  Where the focus is once \<open>closeOverlay\<close> has run on the open overlay of page \<open>t\<close>
  with \<open>captured\<close> in \<open>lastFocusedElement\<close>.
\<close>

definition focus_after_close :: "page \<Rightarrow> element option \<Rightarrow> element option" where
  "focus_after_close t captured =
     (case captured of
        None \<Rightarrow> activeElement t
      | Some el \<Rightarrow> if focusable t el then Some el else activeElement t)"

subsection \<open>Timers\<close>

text \<open>
  \<open>setTimeout\<close> returns a fresh handle, an integer greater than zero, and queues the
  callback; \<open>clearTimeout\<close> removes it; a timeout that fires leaves the queue and runs.
  Time is not measured: the delay is taken and not kept, and a pending timeout may fire
  at any later event.
\<close>

definition setTimeout :: "callback \<Rightarrow> nat \<Rightarrow> page \<Rightarrow> nat \<times> page" where
  "setTimeout cb delay s =
     (let h = Suc (timerSeq s)
      in (h, s\<lparr>timers := timers s @ [(h, cb)], timerSeq := h\<rparr>))"

definition clearTimeout :: "nat \<Rightarrow> page \<Rightarrow> page" where
  "clearTimeout h s = s\<lparr>timers := filter (\<lambda>(k, cb). k \<noteq> h) (timers s)\<rparr>"

subsection \<open>Arming a grid tile\<close>

definition clearArmedGridItem :: "page \<Rightarrow> page" where
  "clearArmedGridItem s =
     (let s1 = (case armedGridResetTimer s of
                  None \<Rightarrow> s
                | Some h \<Rightarrow>
                    if h \<noteq> 0 then (clearTimeout h s)\<lparr>armedGridResetTimer := None\<rparr> else s)
      in if armedGridIndex s1 < 0 then s1
         else
           (let k = nat (armedGridIndex s1);
                s2 = (if k < gridItemContainers s1
                      then s1\<lparr>armedClass := armedClass s1 - {k}\<rparr> else s1)
            in s2\<lparr>armedGridIndex := - 1\<rparr>))"

definition armGridItem :: "int \<Rightarrow> page \<Rightarrow> page" where
  "armGridItem i s =
     (let s1 = clearArmedGridItem s
      in if i < 0 \<or> int (gridItemContainers s1) \<le> i then s1
         else
           (let s2 = s1\<lparr>armedClass := insert (nat i) (armedClass s1), armedGridIndex := i\<rparr>;
                (h, s3) = setTimeout DisarmTimeout 2400 s2
            in s3\<lparr>armedGridResetTimer := Some h\<rparr>))"

subsection \<open>The overlay controller\<close>

text \<open>
  \<open>getProjectImageBasePath\<close> and \<open>renderProjectDetail\<close> both evaluate
  \<open>project.slug || project.title.toLowerCase()\<close>: with no slug and no title the
  method call on \<open>undefined\<close> throws a TypeError. Of the image path only this is kept.
\<close>

definition slug_throws :: "project \<Rightarrow> bool" where
  "slug_throws p = (\<not> truthy (slug p) \<and> title p = None)"

definition preloadProjectHeroImage :: "project option \<Rightarrow> page \<Rightarrow> completion" where
  "preloadProjectHeroImage po s =
     (case po of
        None \<Rightarrow> Returned s
      | Some p \<Rightarrow> if slug_throws p then Threw TypeError s else Returned s)"

text \<open>
  The assignment to \<open>detail.innerHTML\<close> at the end of \<open>renderProjectDetail\<close> replaces
  the markup of the detail view: the elements of the old markup leave the document, and
  the focus with them when one of them had it.
\<close>

definition renderProjectDetail :: "project option \<Rightarrow> page \<Rightarrow> completion" where
  "renderProjectDetail po s =
     (case po of
        None \<Rightarrow> Returned s
      | Some p \<Rightarrow>
          if \<not> overlay s then Returned s
          else if \<not> hasDetail s then Returned s
          else if slug_throws p then Threw TypeError s
          else Returned (s\<lparr>detailProject := Some p,
                           detailGeneration := Suc (detailGeneration s),
                           activeElement := after_removal (activeElement s)\<rparr>))"

definition updateNavButtons :: "page \<Rightarrow> completion" where
  "updateNavButtons s =
     (if \<not> overlay s then Threw TypeError s
      else
        (let s1 = (if hasPrevBtn s
                   then s\<lparr>prevDisabled := (currentProjectIndex s = 0)\<rparr> else s);
             s2 = (if hasNextBtn s1
                   then s1\<lparr>nextDisabled :=
                          (currentProjectIndex s1 = int (length (projectsData s1)) - 1)\<rparr>
                   else s1)
         in Returned s2))"

definition scrollOverlayToTop :: "page \<Rightarrow> completion" where
  "scrollOverlayToTop s =
     (if \<not> overlay s then Threw TypeError s
      else Returned (if hasScroll s then s\<lparr>overlayScrollTop := 0\<rparr> else s))"

definition openProject :: "int \<Rightarrow> page \<Rightarrow> completion" where
  "openProject i s =
     (if \<not> overlay s \<or> projectsData s = [] then Returned s
      else
        (let s1 = clearArmedGridItem s;
             s2 = s1\<lparr>currentProjectIndex := i, lastFocusedElement := activeElement s1\<rparr>
         in and_then (preloadProjectHeroImage (array_get (projectsData s2) i) s2) (\<lambda>s3.
            and_then (renderProjectDetail (array_get (projectsData s3) i) s3) (\<lambda>s4.
            and_then (updateNavButtons s4) (\<lambda>s5.
              (let s6 = s5\<lparr>isOverlayOpen := True, ariaHidden := False,
                             bodyOverlayOpen := True\<rparr>;
                   s7 = snd (setTimeout FocusCloseTimeout 100 s6)
               in Returned (if hasScroll s7 then s7\<lparr>overlayScrollTop := 0\<rparr> else s7)))))))"

definition closeOverlay :: "page \<Rightarrow> page" where
  "closeOverlay s =
     (if \<not> overlay s \<or> \<not> isOverlayOpen s then s
      else
        (let s1 = s\<lparr>isOverlayOpen := False, ariaHidden := True, bodyOverlayOpen := False\<rparr>
         in case lastFocusedElement s1 of
              None \<Rightarrow> s1
            | Some el \<Rightarrow> focus el s1))"

definition goToPrevProject :: "page \<Rightarrow> completion" where
  "goToPrevProject s =
     (if currentProjectIndex s > 0 then
        (let s1 = s\<lparr>currentProjectIndex := currentProjectIndex s - 1\<rparr>
         in and_then
              (renderProjectDetail (array_get (projectsData s1) (currentProjectIndex s1)) s1)
              (\<lambda>s2. and_then (updateNavButtons s2) scrollOverlayToTop))
      else Returned s)"

definition goToNextProject :: "page \<Rightarrow> completion" where
  "goToNextProject s =
     (if currentProjectIndex s < int (length (projectsData s)) - 1 then
        (let s1 = s\<lparr>currentProjectIndex := currentProjectIndex s + 1\<rparr>
         in and_then
              (renderProjectDetail (array_get (projectsData s1) (currentProjectIndex s1)) s1)
              (\<lambda>s2. and_then (updateNavButtons s2) scrollOverlayToTop))
      else Returned s)"

text \<open>A timeout that fires: the callback of the arm timer, or the focus move of the overlay.\<close>

definition runCallback :: "callback \<Rightarrow> page \<Rightarrow> page" where
  "runCallback cb s =
     (case cb of
        DisarmTimeout \<Rightarrow> clearArmedGridItem s
      | FocusCloseTimeout \<Rightarrow>
          if hasCloseBtn s then focus OverlayClose s else s)"

definition fireTimer :: "nat \<Rightarrow> page \<Rightarrow> page" where
  "fireTimer h s =
     (case map_of (timers s) h of
        None \<Rightarrow> s
      | Some cb \<Rightarrow> runCallback cb (clearTimeout h s))"

subsection \<open>Events\<close>

datatype key = Escape | ArrowLeft | ArrowRight | Enter | Space | OtherKey

datatype event =
    GridItemClick bool nat
  | GridItemKeydown key nat
  | DocumentClick
  | OverlayCloseClick
  | OverlayPrevClick
  | OverlayNextClick
  | DocumentKeydown key
  | FooterLinkClick nat
  | DeepLinkFrame int
  | TimerFires nat

text \<open>
  The listeners that \<open>init\<close> binds. A click on grid button \<open>i\<close> opens at once in
  direct-open mode (\<open>isDesktopDirectOpenMode()\<close>, read at every click), opens when the
  tile is already armed, and arms it otherwise. Enter or Space on the button always
  opens. A click elsewhere in the document disarms. A footer link of the current page
  calls \<open>openProject\<close> with its \<open>data-project\<close> index, and so does the animation
  frame that \<open>openProjectFromQueryParam\<close> requests.
\<close>

definition gridItemClick :: "bool \<Rightarrow> nat \<Rightarrow> page \<Rightarrow> completion" where
  "gridItemClick isDesktopDirectOpenMode i s =
     (if isDesktopDirectOpenMode then openProject (int i) (clearArmedGridItem s)
      else if armedGridIndex s = int i then openProject (int i) (clearArmedGridItem s)
      else Returned (armGridItem (int i) s))"

definition gridItemKeydown :: "key \<Rightarrow> nat \<Rightarrow> page \<Rightarrow> completion" where
  "gridItemKeydown k i s =
     (if k = Enter \<or> k = Space then openProject (int i) (clearArmedGridItem s)
      else Returned s)"

definition handleKeyDown :: "key \<Rightarrow> page \<Rightarrow> completion" where
  "handleKeyDown k s =
     (if \<not> isOverlayOpen s then Returned s
      else case k of
             Escape \<Rightarrow> Returned (closeOverlay s)
           | ArrowLeft \<Rightarrow> goToPrevProject s
           | ArrowRight \<Rightarrow> goToNextProject s
           | _ \<Rightarrow> Returned s)"

fun dispatch :: "event \<Rightarrow> page \<Rightarrow> page" where
  "dispatch (GridItemClick d i) s = final (gridItemClick d i s)"
| "dispatch (GridItemKeydown k i) s = final (gridItemKeydown k i s)"
| "dispatch DocumentClick s = clearArmedGridItem s"
| "dispatch OverlayCloseClick s = closeOverlay s"
| "dispatch OverlayPrevClick s = final (goToPrevProject s)"
| "dispatch OverlayNextClick s = final (goToNextProject s)"
| "dispatch (DocumentKeydown k) s = final (handleKeyDown k s)"
| "dispatch (FooterLinkClick i) s = final (openProject (int i) s)"
| "dispatch (DeepLinkFrame i) s = final (openProject i s)"
| "dispatch (TimerFires h) s = fireTimer h s"

text \<open>
  The page when the script starts, and the pages that events lead to from there.
\<close>

definition initial :: "page \<Rightarrow> bool" where
  "initial s =
     (currentProjectIndex s = 0 \<and> \<not> isOverlayOpen s \<and> lastFocusedElement s = None
      \<and> armedGridIndex s = - 1 \<and> armedGridResetTimer s = None
      \<and> armedClass s = {} \<and> timers s = [] \<and> timerSeq s = 0)"

inductive reachable :: "page \<Rightarrow> bool" where
  start: "initial s \<Longrightarrow> reachable s"
| event: "reachable s \<Longrightarrow> reachable (dispatch e s)"

text \<open>
  The consistency of the arm state: the armed class sits on the armed tile only, and a
  pending disarm timeout is the one whose handle \<open>armedGridResetTimer\<close> holds.
\<close>

definition disarm_handles :: "page \<Rightarrow> nat list" where
  "disarm_handles s = map fst (filter (\<lambda>(h, cb). cb = DisarmTimeout) (timers s))"

definition armed_ok :: "page \<Rightarrow> bool" where
  "armed_ok s =
     (armedClass s = (if armedGridIndex s < 0 then {} else {nat (armedGridIndex s)})
      \<and> - 1 \<le> armedGridIndex s \<and> armedGridIndex s < int (gridItemContainers s)
      \<and> list_all (\<lambda>h. armedGridResetTimer s = Some h) (disarm_handles s)
      \<and> (case armedGridResetTimer s of None \<Rightarrow> True | Some h \<Rightarrow> 0 < h \<and> h \<le> timerSeq s))"

subsection \<open>Deep links\<close>

text \<open>
  \<open>normalizeProjectKey\<close> lower-cases, writes \<open>and\<close> for every \<open>&\<close> and drops every
  character that is not a lower-case letter or a digit.
\<close>

definition normalizeProjectKey :: "builtins \<Rightarrow> string option \<Rightarrow> string" where
  "normalizeProjectKey B v =
     (let s0 = (case v of None \<Rightarrow> [] | Some s \<Rightarrow> s);
          s1 = toLowerCase B s0;
          s2 = concat (map (\<lambda>c. if c = CHR ''&'' then ''and'' else [c]) s1)
      in filter (\<lambda>c. c \<in> set ''abcdefghijklmnopqrstuvwxyz0123456789'') s2)"

text \<open>\<open>Array.prototype.findIndex\<close>: the first index that satisfies the test, or \<open>-1\<close>.\<close>

fun findIndex :: "('a \<Rightarrow> bool) \<Rightarrow> 'a list \<Rightarrow> int" where
  "findIndex P [] = - 1"
| "findIndex P (x # xs) =
     (if P x then 0 else (let r = findIndex P xs in if r < 0 then - 1 else r + 1))"

definition key_matches :: "builtins \<Rightarrow> string \<Rightarrow> project \<Rightarrow> bool" where
  "key_matches B normalizedParam p =
     list_ex (\<lambda>k. normalizeProjectKey B k = normalizedParam)
       [slug p, display_title p, title p, index p]"

definition findProjectIndexFromParam :: "builtins \<Rightarrow> string option \<Rightarrow> project list \<Rightarrow> int" where
  "findProjectIndexFromParam B param ps =
     (let normalizedParam = normalizeProjectKey B param
      in if normalizedParam = [] then - 1 else findIndex (key_matches B normalizedParam) ps)"

text \<open>
  \<open>openProjectFromQueryParam\<close> reads \<open>project\<close> and \<open>autopopup\<close> from the query
  string (\<open>None\<close> for a parameter that is absent) and hands
  \<open>() => openProject(projectIndex)\<close> to \<open>requestAnimationFrame\<close>, or returns before
  that. The result is the index of the scheduled call; \<open>pageLoadQuery\<close> runs it.
\<close>

definition openProjectFromQueryParam ::
  "builtins \<Rightarrow> string option \<Rightarrow> string option \<Rightarrow> page \<Rightarrow> int option" where
  "openProjectFromQueryParam B projectParam autopopup s =
     (if \<not> overlay s \<or> projectsData s = [] then None
      else
        (let forceOpen = (autopopup = Some ''1'')
         in if \<not> truthy projectParam \<and> \<not> forceOpen then None
            else
              (let projectIndex = findProjectIndexFromParam B projectParam (projectsData s)
               in if projectIndex < 0 then (if \<not> forceOpen then None else Some 0)
                  else Some projectIndex)))"

definition pageLoadQuery ::
  "builtins \<Rightarrow> string option \<Rightarrow> string option \<Rightarrow> page \<Rightarrow> completion" where
  "pageLoadQuery B projectParam autopopup s =
     (case openProjectFromQueryParam B projectParam autopopup s of
        None \<Rightarrow> Returned s
      | Some i \<Rightarrow> openProject i s)"

section \<open>The description and its language toggle\<close>

text \<open>
  The part of the markup that \<open>renderProjectDetail\<close> writes for the description: the
  toggle with its EN and KR buttons exists when \<open>description_ko\<close> is there, the
  paragraph \<open>.description-en\<close> when \<open>description\<close> is, and \<open>.description-ko\<close>, written
  with \<open>display: none\<close>, when \<open>description_ko\<close> is. An element is \<open>None\<close> when it is
  not in the markup and otherwise holds its \<open>style.display\<close>.
  \<open>langBtnClick\<close> is the click listener that \<open>setupLangToggle\<close> binds to both buttons;
  its argument is \<open>btn.dataset.lang\<close>.
\<close>

record description_dom =
  langToggle :: bool
  activeLang :: string
  descEn :: "string option"
  descKo :: "string option"

definition renderDescription :: "project \<Rightarrow> description_dom" where
  "renderDescription p =
     \<lparr>langToggle = truthy (description_ko p),
      activeLang = ''en'',
      descEn = (if truthy (description p) then Some '''' else None),
      descKo = (if truthy (description_ko p) then Some ''none'' else None)\<rparr>"

definition set_display :: "string \<Rightarrow> string option \<Rightarrow> string option" where
  "set_display v el = (case el of None \<Rightarrow> None | Some d \<Rightarrow> Some v)"

definition langBtnClick :: "string \<Rightarrow> description_dom \<Rightarrow> description_dom" where
  "langBtnClick lang d =
     (if \<not> langToggle d then d
      else if lang = ''en''
        then d\<lparr>activeLang := lang, descEn := set_display '''' (descEn d),
               descKo := set_display ''none'' (descKo d)\<rparr>
        else d\<lparr>activeLang := lang, descEn := set_display '''' (descEn d),
               descKo := set_display '''' (descKo d)\<rparr>)"

definition shown :: "string option \<Rightarrow> bool" where
  "shown el = (case el of None \<Rightarrow> False | Some d \<Rightarrow> d \<noteq> ''none'')"

datatype lang_btn = EN | KR

fun data_lang :: "lang_btn \<Rightarrow> string" where
  "data_lang EN = ''en''"
| "data_lang KR = ''kr''"

definition clicks :: "lang_btn list \<Rightarrow> description_dom \<Rightarrow> description_dom" where
  "clicks bs d = foldl (\<lambda>d b. langBtnClick (data_lang b) d) d bs"

section \<open>Image fallback chains\<close>

text \<open>
  \<open>preloadImageSequence\<close> and the \<open>tryNextUrl\<close> of \<open>loadThumbnail\<close> walk a list of
  candidate URLs: each creates an \<open>Image\<close>, assigns its \<open>src\<close> and goes on to the next
  index from \<open>onerror\<close>. Which of \<open>onload\<close> and \<open>onerror\<close> the browser calls for a URL
  is the parameter \<open>loads\<close>; the callbacks of one chain run one after the other, and
  nothing else writes to the chain's variables, so the chain is a recursion.
  \<open>requested\<close> records the \<open>src\<close> assignments in order; the other fields of \<open>thumb\<close>
  are the inline background image and the classes \<open>loaded\<close> and
  \<open>grid-thumb--placeholder\<close> of the tile.
\<close>

record thumb =
  backgroundImage :: string
  classLoaded :: bool
  classPlaceholder :: bool
  requested :: "string list"

function tryLoad :: "(string \<Rightarrow> bool) \<Rightarrow> string list \<Rightarrow> nat \<Rightarrow> string" where
  "tryLoad loads candidates i =
     (if i \<ge> length candidates then ''''
      else if loads (candidates ! i) then candidates ! i
      else tryLoad loads candidates (i + 1))"
  by pat_completeness auto
termination
  by (relation "measure (\<lambda>(loads, candidates, i). length candidates - i)") auto

definition preloadImageSequence :: "(string \<Rightarrow> bool) \<Rightarrow> string list \<Rightarrow> string" where
  "preloadImageSequence loads candidates =
     (if candidates = [] then '''' else tryLoad loads candidates 0)"

function tryNextUrl :: "(string \<Rightarrow> bool) \<Rightarrow> string list \<Rightarrow> nat \<Rightarrow> thumb \<Rightarrow> thumb" where
  "tryNextUrl loads urlsToTry i th =
     (if i \<ge> length urlsToTry then th\<lparr>classPlaceholder := True, classLoaded := True\<rparr>
      else
        (let th1 = th\<lparr>requested := requested th @ [urlsToTry ! i]\<rparr>
         in if loads (urlsToTry ! i)
            then th1\<lparr>backgroundImage := ''url('' @ [CHR 0x27] @ urlsToTry ! i @ [CHR 0x27] @ '')'',
                     classLoaded := True\<rparr>
            else tryNextUrl loads urlsToTry (i + 1) th1))"
  by pat_completeness auto
termination
  by (relation "measure (\<lambda>(loads, urlsToTry, i, th). length urlsToTry - i)") auto

definition thumb0 :: thumb where
  "thumb0 = \<lparr>backgroundImage = '''', classLoaded = False, classPlaceholder = False,
              requested = []\<rparr>"

section \<open>Meta fields of the detail view\<close>

text \<open>
  The first part of \<open>renderProjectDetail\<close> builds \<open>metaHTML\<close>, one
  \<open><div class="meta-item">\<close> after the other. An item is kept here as its label and its
  value, before \<open>escapeHtml\<close> and \<open>renderLinkedText\<close> turn them into markup.
  An entry of \<open>custom_fields\<close> that is \<open>null\<close> is dropped by the same test as an
  entry without a label and is not modelled apart.
\<close>

definition str :: "string option \<Rightarrow> string" where
  "str v = (case v of None \<Rightarrow> [] | Some s \<Rightarrow> s)"

definition startsWith :: "string \<Rightarrow> string \<Rightarrow> bool" where
  "startsWith s p = (take (length p) s = p)"

fun string_of_nat :: "nat \<Rightarrow> string" where
  "string_of_nat n =
     (if n < 10 then [''0123456789'' ! n]
      else string_of_nat (n div 10) @ [''0123456789'' ! (n mod 10)])"

record custom_meta =
  cm_id :: string
  cm_token :: string
  cm_label :: string
  cm_value :: string
  cm_aliases :: "string list"

definition baseMetaFields :: "(string \<times> string) list" where
  "baseMetaFields =
     [(''location'', ''LOCATION''), (''duration'', ''DURATION''),
      (''program'', ''PROGRAM''), (''studio'', ''STUDIO'')]"

definition reservedMetaLabels :: "string list" where
  "reservedMetaLabels = [''LOCATION'', ''DURATION'', ''PROGRAM'', ''STUDIO'']"

definition keep_custom :: "builtins \<Rightarrow> custom_field \<Rightarrow> bool" where
  "keep_custom B f =
     (if \<not> truthy (field_label f) \<or> \<not> truthy (field_value f) then False
      else toUpperCase B (trim B (str (field_label f))) \<notin> set reservedMetaLabels)"

definition make_custom :: "builtins \<Rightarrow> custom_field \<times> nat \<Rightarrow> custom_meta" where
  "make_custom B fi =
     (let f = fst fi;
          fieldId = (if truthy (field_id f) then str (field_id f)
                     else ''index-'' @ string_of_nat (snd fi));
          normalizedLabel = toUpperCase B (trim B (str (field_label f)))
      in \<lparr>cm_id = fieldId, cm_token = ''custom:'' @ fieldId,
          cm_label = str (field_label f), cm_value = str (field_value f),
          cm_aliases = [fieldId, ''custom:'' @ fieldId,
                        if normalizedLabel \<noteq> [] then ''label:'' @ normalizedLabel else []]\<rparr>)"

definition teamField :: "project \<Rightarrow> custom_meta" where
  "teamField p =
     \<lparr>cm_id = ''legacy-team'', cm_token = ''custom:legacy-team'', cm_label = ''TEAM'',
      cm_value = str (team p),
      cm_aliases = [''legacy-team'', ''custom:legacy-team'', ''label:TEAM'']\<rparr>"

definition mapped_custom :: "builtins \<Rightarrow> custom_field list \<Rightarrow> custom_meta list" where
  "mapped_custom B fs =
     (let kept = filter (keep_custom B) fs in map (make_custom B) (zip kept [0..<length kept]))"

definition customMetaFields :: "builtins \<Rightarrow> project \<Rightarrow> custom_meta list" where
  "customMetaFields B p =
     (let cms = (case custom_fields p of None \<Rightarrow> [] | Some fs \<Rightarrow> mapped_custom B fs)
      in if truthy (team p)
            \<and> \<not> list_ex (\<lambda>f. toUpperCase B (trim B (cm_label f)) = ''TEAM'') cms
         then cms @ [teamField p] else cms)"

text \<open>
  \<open>customMetaFieldMap\<close> is a \<open>Map\<close> from token to field, filled in the order of the
  fields: for a token that occurs twice \<open>get\<close> returns the later field.
\<close>

definition customMetaFieldMap_get :: "custom_meta list \<Rightarrow> string \<Rightarrow> custom_meta option" where
  "customMetaFieldMap_get cms k = find (\<lambda>f. cm_token f = k) (rev cms)"

definition resolveCustomMetaField :: "builtins \<Rightarrow> custom_meta list \<Rightarrow> string \<Rightarrow> custom_meta option" where
  "resolveCustomMetaField B cms k =
     (let normalizedKey = trim B k
      in if normalizedKey = [] then None
         else if customMetaFieldMap_get cms normalizedKey \<noteq> None
           then customMetaFieldMap_get cms normalizedKey
         else
           (let prefixedKey = (if startsWith normalizedKey ''custom:'' then normalizedKey
                               else ''custom:'' @ normalizedKey)
            in if customMetaFieldMap_get cms prefixedKey \<noteq> None
               then customMetaFieldMap_get cms prefixedKey
               else
                 (let normalizedLabelKey =
                        (if startsWith normalizedKey ''label:''
                         then ''label:'' @ toUpperCase B (drop 6 normalizedKey)
                         else ''label:'' @ toUpperCase B normalizedKey)
                  in find (\<lambda>f. normalizedKey \<in> set (cm_aliases f)
                                \<or> prefixedKey \<in> set (cm_aliases f)
                                \<or> normalizedLabelKey \<in> set (cm_aliases f)) cms)))"

definition push_new :: "string list \<Rightarrow> string \<Rightarrow> string list" where
  "push_new ordered k = (if k \<in> set ordered then ordered else ordered @ [k])"

definition order_step :: "builtins \<Rightarrow> custom_meta list \<Rightarrow> string list \<Rightarrow> string \<Rightarrow> string list" where
  "order_step B cms ordered k =
     (let customField = resolveCustomMetaField B cms k;
          normalizedKey =
            (case customField of
               None \<Rightarrow> k
             | Some f \<Rightarrow> if map_of baseMetaFields k = None then cm_token f else k)
      in if (map_of baseMetaFields normalizedKey \<noteq> None
               \<or> customMetaFieldMap_get cms normalizedKey \<noteq> None)
            \<and> normalizedKey \<notin> set ordered
         then ordered @ [normalizedKey] else ordered)"

definition orderedMetaKeys :: "builtins \<Rightarrow> project \<Rightarrow> string list" where
  "orderedMetaKeys B p =
     (let cms = customMetaFields B p;
          o0 = (case meta_field_order p of
                  None \<Rightarrow> []
                | Some ks \<Rightarrow> foldl (order_step B cms) [] ks);
          o1 = foldl push_new o0 (map fst baseMetaFields)
      in foldl push_new o1 (map cm_token cms))"

text \<open>\<open>project[key]\<close> for the keys of the base fields.\<close>

definition project_get :: "project \<Rightarrow> string \<Rightarrow> string option" where
  "project_get p k =
     (if k = ''location'' then location p
      else if k = ''duration'' then duration p
      else if k = ''program'' then program p
      else if k = ''studio'' then studio p
      else None)"

definition render_key :: "project \<Rightarrow> custom_meta list \<Rightarrow> string \<Rightarrow> (string \<times> string) list" where
  "render_key p cms k =
     (case map_of baseMetaFields k of
        Some l \<Rightarrow> if truthy (project_get p k) then [(l, str (project_get p k))] else []
      | None \<Rightarrow>
          (case customMetaFieldMap_get cms k of
             None \<Rightarrow> []
           | Some f \<Rightarrow> if cm_value f = [] then [] else [(cm_label f, cm_value f)]))"

definition meta_item :: "string \<Rightarrow> string option \<Rightarrow> (string \<times> string) list" where
  "meta_item l v = (if truthy v then [(l, str v)] else [])"

text \<open>
  Between the loop over \<open>orderedMetaKeys\<close> and the items of YEAR, MEDIUM and SERIES the
  function computes \<open>project.slug || project.title.toLowerCase()\<close>, which throws a
  TypeError on a record with neither slug nor title. That is before
  \<open>detail.innerHTML\<close> is assigned: such a record renders no meta item at all.
\<close>

definition metaItems :: "builtins \<Rightarrow> project \<Rightarrow> js_error + (string \<times> string) list" where
  "metaItems B p =
     (let ordered = concat (map (render_key p (customMetaFields B p)) (orderedMetaKeys B p))
      in if slug_throws p then Inl TypeError
         else Inr (ordered
                   @ meta_item ''YEAR'' (year p) @ meta_item ''MEDIUM'' (medium p)
                   @ meta_item ''SERIES'' (series p)))"

section \<open>The embedded project data\<close>

text \<open>
  \<open>init\<close> reads the text of the \<open>projectsData\<close> element, rewrites every match of
  \<open>/"([^"\\]*(\\.[^"\\]*)*)"/g\<close> by \<open>match.replace(/\n/g, '\\n').replace(/\r/g, '')\<close> and
  hands the result to \<open>JSON.parse\<close>; when that throws, \<open>projectsData\<close> stays empty.
  Text is a list of UTF-16 code units, written as numbers: 34 is the double quote, 92 the
  backslash, 10 the line feed, 13 the carriage return, 110 the letter n, 117 the letter u.
\<close>

type_synonym code_units = "nat list"

definition replace_newlines :: "code_units \<Rightarrow> code_units" where
  "replace_newlines m = concat (map (\<lambda>c. if c = 10 then [92, 110] else [c]) m)"

definition remove_returns :: "code_units \<Rightarrow> code_units" where
  "remove_returns m = filter (\<lambda>c. c \<noteq> 13) m"

definition escape_match :: "code_units \<Rightarrow> code_units" where
  "escape_match m = remove_returns (replace_newlines m)"

text \<open>
  A match of the pattern that starts at a double quote: \<open>span_end\<close> is given the text
  after the quote and returns what the group matched and the text after the closing
  quote. Outside an escape the pattern takes anything but a quote or a backslash; a
  backslash needs one more code unit that \<open>.\<close> matches, which is any but the line
  terminators (of which 10 and 13 are below 256; 8232 and 8233 are the others). No other
  way to match exists from the same quote, so backtracking cannot find one.
\<close>

definition line_terminator :: "nat \<Rightarrow> bool" where
  "line_terminator c = (c = 10 \<or> c = 13 \<or> c = 8232 \<or> c = 8233)"

fun span_end :: "code_units \<Rightarrow> (code_units \<times> code_units) option" where
  "span_end [] = None"
| "span_end (c # cs) =
     (if c = 34 then Some ([], cs)
      else if c = 92 then
        (case cs of
           [] \<Rightarrow> None
         | d # ds \<Rightarrow>
             if line_terminator d then None
             else map_option (apfst (\<lambda>b. c # d # b)) (span_end ds))
      else map_option (apfst (Cons c)) (span_end cs))"

lemma span_end_length: "span_end cs = Some (b, r) \<Longrightarrow> length r < length cs"
proof (induction cs arbitrary: b rule: span_end.induct)
  case 1
  then show ?case by simp
next
  case (2 c cs)
  then show ?case
    by (fastforce split: if_splits list.splits)
qed

text \<open>
  The global replace: the leftmost match, its replacement, and on from its end; a quote
  from which the pattern does not match is copied and the search goes on behind it.
\<close>

function escapeNewlines :: "code_units \<Rightarrow> code_units" where
  "escapeNewlines [] = []"
| "escapeNewlines (c # cs) =
     (if c = 34 then
        (case span_end cs of
           None \<Rightarrow> c # escapeNewlines cs
         | Some (body, rest) \<Rightarrow> escape_match (34 # body @ [34]) @ escapeNewlines rest)
      else c # escapeNewlines cs)"
  by pat_completeness auto
termination
  by (relation "measure length") (auto dest: span_end_length)

text \<open>
  \<open>JSON.parse\<close> is the language's own. Its lexical grammar splits the text into string
  literals, decoded, and the code units between them; what the syntactic grammar makes of
  that sequence is the parameter \<open>G\<close> of \<open>JSON_parse\<close>. In a string literal a code unit
  below 32 is an error, and a backslash starts one of the escapes
  \<open>\" \\ \/ \b \f \n \r \t \uXXXX\<close>.

  With the flag \<open>raw\<close> the same lexer reads the payloads the page is served with: a
  raw line feed inside a string literal stands for itself and a raw carriage return is
  skipped.
\<close>

datatype token = Str code_units | Other nat

definition escape_char :: "nat \<Rightarrow> nat option" where
  "escape_char e =
     (if e = 34 then Some 34 else if e = 92 then Some 92 else if e = 47 then Some 47
      else if e = 98 then Some 8 else if e = 102 then Some 12 else if e = 110 then Some 10
      else if e = 114 then Some 13 else if e = 116 then Some 9 else None)"

definition is_hex :: "nat \<Rightarrow> bool" where
  "is_hex c = ((48 \<le> c \<and> c \<le> 57) \<or> (65 \<le> c \<and> c \<le> 70) \<or> (97 \<le> c \<and> c \<le> 102))"

definition hex_val :: "nat \<Rightarrow> nat" where
  "hex_val c = (if c \<le> 57 then c - 48 else if c \<le> 70 then c - 55 else c - 87)"

fun lex_string :: "bool \<Rightarrow> code_units \<Rightarrow> (code_units \<times> code_units) option" where
  "lex_string raw [] = None"
| "lex_string raw (c # cs) =
     (if c = 34 then Some ([], cs)
      else if c = 92 then
        (case cs of
           [] \<Rightarrow> None
         | e # es \<Rightarrow>
             if e = 117 then
               (case es of
                  h1 # h2 # h3 # h4 # rest \<Rightarrow>
                    if is_hex h1 \<and> is_hex h2 \<and> is_hex h3 \<and> is_hex h4
                    then map_option
                           (apfst (Cons (((hex_val h1 * 16 + hex_val h2) * 16 + hex_val h3) * 16
                                         + hex_val h4)))
                           (lex_string raw rest)
                    else None
                | _ \<Rightarrow> None)
             else
               (case escape_char e of
                  None \<Rightarrow> None
                | Some d \<Rightarrow> map_option (apfst (Cons d)) (lex_string raw es)))
      else if raw \<and> c = 10 then map_option (apfst (Cons 10)) (lex_string raw cs)
      else if raw \<and> c = 13 then lex_string raw cs
      else if c < 32 then None
      else map_option (apfst (Cons c)) (lex_string raw cs))"

lemma lex_string_length: "lex_string raw cs = Some (s, r) \<Longrightarrow> length r < length cs"
proof (induction raw cs arbitrary: s rule: lex_string.induct)
  case (1 raw)
  then show ?case by simp
next
  case (2 raw c cs)
  then show ?case
    by (fastforce split: if_splits list.splits option.splits)
qed

function lex :: "bool \<Rightarrow> code_units \<Rightarrow> token list option" where
  "lex raw [] = Some []"
| "lex raw (c # cs) =
     (if c = 34 then
        (case lex_string raw cs of
           None \<Rightarrow> None
         | Some (s, rest) \<Rightarrow> map_option (Cons (Str s)) (lex raw rest))
      else map_option (Cons (Other c)) (lex raw cs))"
  by pat_completeness auto
termination
  by (relation "measure (\<lambda>(raw, cs). length cs)") (auto dest: lex_string_length)

definition JSON_tokens :: "code_units \<Rightarrow> token list option" where
  "JSON_tokens t = lex False t"

definition JSON_parse :: "(token list \<Rightarrow> 'v option) \<Rightarrow> code_units \<Rightarrow> 'v option" where
  "JSON_parse G t = (case JSON_tokens t of None \<Rightarrow> None | Some ts \<Rightarrow> G ts)"

text \<open>
  The payload as the specification reads it: well-formed but for raw line feeds and
  carriage returns inside string literals, the line feeds being part of the values.
\<close>

definition spec_tokens :: "code_units \<Rightarrow> token list option" where
  "spec_tokens t = lex True t"

text \<open>The assignment in \<open>init\<close>, with its \<open>catch\<close>: \<open>projectsData\<close> stays \<open>[]\<close>.\<close>

definition parseProjectsData :: "(token list \<Rightarrow> 'p list option) \<Rightarrow> code_units \<Rightarrow> 'p list" where
  "parseProjectsData G jsonText =
     (case JSON_parse G (escapeNewlines jsonText) of None \<Rightarrow> [] | Some ps \<Rightarrow> ps)"

section \<open>An example page\<close>

definition titled :: "string \<Rightarrow> project" where
  "titled t =
     \<lparr>slug = None, display_title = None, title = Some t, index = None,
      description = None, description_ko = None, location = None, duration = None,
      program = None, studio = None, year = None, medium = None, series = None,
      team = None, custom_fields = None, meta_field_order = None\<rparr>"

text \<open>
  Three projects, an overlay with all its children, six grid tiles, the overlay closed and
  the keyboard focus on the second grid button.
\<close>

definition page0 :: page where
  "page0 =
     \<lparr>currentProjectIndex = 0,
      projectsData = [titled ''Soft Concrete'', titled ''House & Garden'', titled ''Atlas''],
      isOverlayOpen = False, lastFocusedElement = None,
      armedGridIndex = - 1, armedGridResetTimer = None,
      overlay = True, hasDetail = True, hasCloseBtn = True, hasPrevBtn = True,
      hasNextBtn = True, hasScroll = True, gridItemContainers = 6,
      activeElement = Some (GridItemBtn 1), ariaHidden = True, bodyOverlayOpen = False,
      detailProject = None, detailGeneration = 0, prevDisabled = False, nextDisabled = False,
      overlayScrollTop = 0, armedClass = {}, timers = [], timerSeq = 0\<rparr>"

text \<open>The same page with the overlay open on the last project.\<close>

definition page_open_last :: page where
  "page_open_last =
     page0\<lparr>currentProjectIndex := 2, isOverlayOpen := True,
       lastFocusedElement := Some (GridItemBtn 1), ariaHidden := False,
       bodyOverlayOpen := True, detailProject := Some (titled ''Atlas''),
       detailGeneration := 1, nextDisabled := True, activeElement := Some OverlayClose\<rparr>"

text \<open>
  A page of two projects with the overlay open on the first, which has a language toggle,
  and the focus on its KR button, the second focusable element of the detail markup.
\<close>

definition page_lang_focus :: page where
  "page_lang_focus =
     page0\<lparr>projectsData :=
             [(titled ''Atlas'')\<lparr>description := Some ''A house.'',
                                  description_ko := Some ''jip''\<rparr>,
              titled ''Soft Concrete''],
       isOverlayOpen := True, lastFocusedElement := Some (GridItemBtn 0),
       ariaHidden := False, bodyOverlayOpen := True,
       detailProject := Some ((titled ''Atlas'')\<lparr>description := Some ''A house.'',
                                                    description_ko := Some ''jip''\<rparr>),
       detailGeneration := 1, prevDisabled := True,
       activeElement := Some (DetailElement 1 1)\<rparr>"

text \<open>A page whose third project has a title of one Hangul syllable (three bytes of UTF-8).\<close>

definition page_kr :: page where
  "page_kr = page0\<lparr>projectsData :=
      [titled ''Soft Concrete'', titled ''Atlas'', titled [CHR 0xEC, CHR 0xA7, CHR 0x91]]\<rparr>"

text \<open>A project with a description in both languages.\<close>

definition bilingual :: project where
  "bilingual = (titled ''Atlas'')\<lparr>description := Some ''A house.'', description_ko := Some ''jip''\<rparr>"

text \<open>A project with a location, a year and one custom field.\<close>

definition with_client :: project where
  "with_client =
     (titled ''Atlas'')\<lparr>location := Some ''Seoul'', year := Some ''2024'',
        custom_fields := Some [\<lparr>field_id = None, field_label = Some ''CLIENT'',
                                 field_value = Some ''City''\<rparr>]\<rparr>"

text \<open>The same project with the custom field put first by \<open>meta_field_order\<close>.\<close>

definition with_order :: project where
  "with_order = with_client\<lparr>meta_field_order := Some [''index-0'', ''location'']\<rparr>"

text \<open>
  The payload \<open>[{"t":"a\<close>, line feed, carriage return, \<open>b"}]\<close>, and a stand-in grammar that
  returns the values of the string literals.
\<close>

definition payload :: code_units where
  "payload = [91, 123, 34, 116, 34, 58, 34, 97, 10, 13, 98, 34, 125, 93]"

fun literals :: "token list \<Rightarrow> code_units list option" where
  "literals [] = Some []"
| "literals (Str s # ts) = map_option (Cons s) (literals ts)"
| "literals (Other c # ts) = literals ts"

section \<open>Properties of the overlay controller\<close>

subsection \<open>What the helpers leave alone\<close>

lemma final_and_then:
  "final (and_then c f) = (case c of Returned s \<Rightarrow> final (f s) | Threw e s \<Rightarrow> s)"
  by (cases c) simp_all

lemma renderProjectDetail_vars:
  "currentProjectIndex (final (renderProjectDetail po s)) = currentProjectIndex s
   \<and> isOverlayOpen (final (renderProjectDetail po s)) = isOverlayOpen s
   \<and> lastFocusedElement (final (renderProjectDetail po s)) = lastFocusedElement s
   \<and> projectsData (final (renderProjectDetail po s)) = projectsData s
   \<and> overlay (final (renderProjectDetail po s)) = overlay s"
  by (simp add: renderProjectDetail_def split: option.split)

lemma updateNavButtons_vars:
  "currentProjectIndex (final (updateNavButtons s)) = currentProjectIndex s
   \<and> isOverlayOpen (final (updateNavButtons s)) = isOverlayOpen s
   \<and> lastFocusedElement (final (updateNavButtons s)) = lastFocusedElement s
   \<and> projectsData (final (updateNavButtons s)) = projectsData s
   \<and> activeElement (final (updateNavButtons s)) = activeElement s
   \<and> overlay (final (updateNavButtons s)) = overlay s
   \<and> detailProject (final (updateNavButtons s)) = detailProject s"
  by (simp add: updateNavButtons_def Let_def)

lemma scrollOverlayToTop_vars:
  "currentProjectIndex (final (scrollOverlayToTop s)) = currentProjectIndex s
   \<and> isOverlayOpen (final (scrollOverlayToTop s)) = isOverlayOpen s
   \<and> lastFocusedElement (final (scrollOverlayToTop s)) = lastFocusedElement s
   \<and> projectsData (final (scrollOverlayToTop s)) = projectsData s
   \<and> activeElement (final (scrollOverlayToTop s)) = activeElement s"
  by (simp add: scrollOverlayToTop_def)

lemma rerender_vars:
  "currentProjectIndex
     (final (and_then (renderProjectDetail po s)
        (\<lambda>s2. and_then (updateNavButtons s2) scrollOverlayToTop))) = currentProjectIndex s
   \<and> isOverlayOpen
     (final (and_then (renderProjectDetail po s)
        (\<lambda>s2. and_then (updateNavButtons s2) scrollOverlayToTop))) = isOverlayOpen s
   \<and> lastFocusedElement
     (final (and_then (renderProjectDetail po s)
        (\<lambda>s2. and_then (updateNavButtons s2) scrollOverlayToTop))) = lastFocusedElement s"
proof (cases "renderProjectDetail po s")
  case (Returned s2)
  have r: "currentProjectIndex s2 = currentProjectIndex s"
    "isOverlayOpen s2 = isOverlayOpen s" "lastFocusedElement s2 = lastFocusedElement s"
    using renderProjectDetail_vars [of po s] Returned by simp_all
  show ?thesis
  proof (cases "updateNavButtons s2")
    case inner: (Returned s3)
    have u: "currentProjectIndex s3 = currentProjectIndex s2"
      "isOverlayOpen s3 = isOverlayOpen s2" "lastFocusedElement s3 = lastFocusedElement s2"
      using updateNavButtons_vars [of s2] inner by simp_all
    show ?thesis
      using Returned inner r u scrollOverlayToTop_vars [of s3] by simp
  next
    case inner: (Threw e s3)
    have u: "currentProjectIndex s3 = currentProjectIndex s2"
      "isOverlayOpen s3 = isOverlayOpen s2" "lastFocusedElement s3 = lastFocusedElement s2"
      using updateNavButtons_vars [of s2] inner by simp_all
    show ?thesis using Returned inner r u by simp
  qed
next
  case (Threw e s2)
  then show ?thesis using renderProjectDetail_vars [of po s] by simp
qed

lemma clearArmedGridItem_vars:
  "currentProjectIndex (clearArmedGridItem s) = currentProjectIndex s
   \<and> isOverlayOpen (clearArmedGridItem s) = isOverlayOpen s
   \<and> lastFocusedElement (clearArmedGridItem s) = lastFocusedElement s
   \<and> projectsData (clearArmedGridItem s) = projectsData s
   \<and> activeElement (clearArmedGridItem s) = activeElement s
   \<and> overlay (clearArmedGridItem s) = overlay s
   \<and> hasDetail (clearArmedGridItem s) = hasDetail s
   \<and> detailProject (clearArmedGridItem s) = detailProject s"
  by (simp add: clearArmedGridItem_def clearTimeout_def Let_def split: option.split)

lemma openProject_throw:
  assumes "overlay s" "array_get (projectsData s) i = Some p" "slug_throws p"
  shows "\<exists>s'. openProject i s = Threw TypeError s'
     \<and> isOverlayOpen s' = isOverlayOpen s \<and> currentProjectIndex s' = i
     \<and> lastFocusedElement s' = activeElement s \<and> activeElement s' = activeElement s
     \<and> overlay s'"
proof -
  from assms(2) have ne: "projectsData s \<noteq> []"
    by (auto simp: array_get_def split: if_splits)
  show ?thesis
    using assms ne clearArmedGridItem_vars [of s]
    by (simp add: openProject_def Let_def preloadProjectHeroImage_def)
qed

lemma openProject_return:
  assumes "overlay s" "projectsData s \<noteq> []"
    "case array_get (projectsData s) i of None \<Rightarrow> True | Some p \<Rightarrow> \<not> slug_throws p"
  shows "\<exists>s'. openProject i s = Returned s'
     \<and> isOverlayOpen s' \<and> currentProjectIndex s' = i
     \<and> lastFocusedElement s' = activeElement s
     \<and> activeElement s' =
        (case array_get (projectsData s) i of
           None \<Rightarrow> activeElement s
         | Some p \<Rightarrow> if hasDetail s then after_removal (activeElement s) else activeElement s)
     \<and> overlay s' \<and> projectsData s' = projectsData s
     \<and> detailProject s' =
        (case array_get (projectsData s) i of
           None \<Rightarrow> detailProject s
         | Some p \<Rightarrow> if hasDetail s then Some p else detailProject s)"
proof (cases "array_get (projectsData s) i")
  case None
  then show ?thesis
    using assms clearArmedGridItem_vars [of s]
    by (simp add: openProject_def Let_def preloadProjectHeroImage_def renderProjectDetail_def
        updateNavButtons_def setTimeout_def)
next
  case (Some p)
  then show ?thesis
    using assms clearArmedGridItem_vars [of s]
    by (simp add: openProject_def Let_def preloadProjectHeroImage_def renderProjectDetail_def
        updateNavButtons_def setTimeout_def)
qed

lemma focusable_same:
  assumes "hasCloseBtn s' = hasCloseBtn s"
    and "hasPrevBtn s' = hasPrevBtn s" and "prevDisabled s' = prevDisabled s"
    and "hasNextBtn s' = hasNextBtn s" and "nextDisabled s' = nextDisabled s"
    and "detailGeneration s' = detailGeneration s"
  shows "focusable s' el = focusable s el"
  using assms by (cases el) simp_all

lemma focus_vars:
  "isOverlayOpen (focus el s) = isOverlayOpen s
   \<and> overlay (focus el s) = overlay s
   \<and> lastFocusedElement (focus el s) = lastFocusedElement s
   \<and> focusable (focus el s) x = focusable s x
   \<and> activeElement (focus el s) = (if focusable s el then Some el else activeElement s)"
proof -
  have "focusable (s\<lparr>activeElement := Some el\<rparr>) x = focusable s x"
    by (rule focusable_same) simp_all
  then show ?thesis by (simp add: focus_def)
qed

lemma closeOverlay_focus:
  assumes "overlay s"
  shows "\<not> isOverlayOpen (closeOverlay s)
     \<and> activeElement (closeOverlay s) =
        (if isOverlayOpen s
         then (case lastFocusedElement s of
                 None \<Rightarrow> activeElement s
               | Some el \<Rightarrow> if focusable s el then Some el else activeElement s)
         else activeElement s)"
proof (cases "isOverlayOpen s")
  case False
  then show ?thesis by (simp add: closeOverlay_def)
next
  case True
  let ?s1 = "s\<lparr>isOverlayOpen := False, ariaHidden := True, bodyOverlayOpen := False\<rparr>"
  have f: "focusable ?s1 x = focusable s x" for x
    by (rule focusable_same) simp_all
  show ?thesis
    using True assms focus_vars [of _ ?s1]
    by (cases "lastFocusedElement s") (simp_all add: closeOverlay_def Let_def f)
qed

lemma fireTimer_vars:
  "isOverlayOpen (fireTimer h s) = isOverlayOpen s
   \<and> overlay (fireTimer h s) = overlay s
   \<and> lastFocusedElement (fireTimer h s) = lastFocusedElement s
   \<and> focusable (fireTimer h s) x = focusable s x"
proof (cases "map_of (timers s) h")
  case None
  then show ?thesis by (simp add: fireTimer_def)
next
  case (Some cb)
  let ?c = "clearTimeout h s"
  have c: "focusable ?c x = focusable s x"
    by (rule focusable_same) (simp_all add: clearTimeout_def)
  show ?thesis
  proof (cases cb)
    case DisarmTimeout
    have "focusable (clearArmedGridItem ?c) x = focusable ?c x"
      by (rule focusable_same)
        (simp_all add: clearArmedGridItem_def clearTimeout_def Let_def split: option.split)
    with Some DisarmTimeout c clearArmedGridItem_vars [of ?c] show ?thesis
      by (simp add: fireTimer_def runCallback_def clearTimeout_def)
  next
    case FocusCloseTimeout
    with Some c focus_vars [of OverlayClose ?c x] show ?thesis
      by (simp add: fireTimer_def runCallback_def clearTimeout_def)
  qed
qed

subsection \<open>Opening\<close>

text \<open>
  C1 (as amended). \<open>openProject\<close> has no test of its index against the length of the
  project list; it only returns at once when there is no overlay element or no project.
  For an index outside \<open>[0, N-1]\<close> it never throws, and
  \<^item> with no overlay element or an empty project list it returns the page unchanged;
  \<^item> otherwise the detail markup is left as it was (\<open>renderProjectDetail\<close> returns on
    the \<open>undefined\<close> project), but \<open>currentProjectIndex\<close> becomes the index,
    \<open>lastFocusedElement\<close> the focused element, and \<open>isOverlayOpen\<close> true.
  That an index out of range is ignored does not hold: \<open>openProject(7)\<close> on a page
  of three projects with the overlay closed opens the overlay.
\<close>

theorem openProject_out_of_range:
  assumes "i < 0 \<or> int (length (projectsData s)) \<le> i"
  shows "\<exists>s'. openProject i s = Returned s'
     \<and> (if overlay s \<and> projectsData s \<noteq> []
        then isOverlayOpen s' \<and> currentProjectIndex s' = i
          \<and> lastFocusedElement s' = activeElement s
          \<and> detailProject s' = detailProject s \<and> projectsData s' = projectsData s
        else s' = s)"
proof (cases "overlay s \<and> projectsData s \<noteq> []")
  case True
  from assms have none: "array_get (projectsData s) i = None"
    by (auto simp: array_get_def)
  show ?thesis
    using True none openProject_return [of s i] by auto
next
  case False
  then show ?thesis by (auto simp: openProject_def)
qed

theorem openProject_out_of_range_witness:
  "\<exists>s'. openProject 7 page0 = Returned s' \<and> isOverlayOpen s' \<and> currentProjectIndex s' = 7
     \<and> lastFocusedElement s' = Some (GridItemBtn 1) \<and> detailProject s' = None"
  using openProject_out_of_range [of 7 page0]
  by (auto simp: page0_def)

theorem openProject_out_of_range_counterexample:
  "\<not> isOverlayOpen page0 \<and> currentProjectIndex page0 = 0 \<and> lastFocusedElement page0 = None
   \<and> length (projectsData page0) = 3
   \<and> isOverlayOpen (final (openProject 7 page0))
   \<and> currentProjectIndex (final (openProject 7 page0)) = 7
   \<and> lastFocusedElement (final (openProject 7 page0)) = Some (GridItemBtn 1)
   \<and> openProject 7 page0 \<noteq> Returned page0"
  by (simp add: page0_def openProject_def Let_def clearArmedGridItem_def array_get_def
      preloadProjectHeroImage_def renderProjectDetail_def updateNavButtons_def setTimeout_def)

text \<open>
  C3 (as amended). On a page with an overlay element, \<open>openProject(i)\<close> for a valid
  \<open>i\<close> stores the element that has the focus in \<open>lastFocusedElement\<close>, and
  \<open>closeOverlay()\<close> after it ends with \<open>isOverlayOpen\<close> false. The close moves the
  focus to the stored element when that element can take focus at that moment, be it at
  once or after the timeout of the open has put the focus on the close button; when the
  stored element cannot take focus (it is the body, a button the open has disabled, or
  an element of the detail markup that the open has replaced) the close leaves the focus
  where it is. Between the two calls the overlay is open on \<open>i\<close>, unless the record has
  neither slug nor title and the open threw before \<open>isOverlayOpen\<close> was assigned.
  That the focus always returns does not hold: with the overlay open and the focus on a
  language button of the detail view, an open of another project followed at once by a
  close ends with the focus on the body.
\<close>

theorem open_then_close:
  assumes "overlay s" and "0 \<le> i" and "i < int (length (projectsData s))"
  shows "\<not> isOverlayOpen (closeOverlay (final (openProject i s)))
     \<and> lastFocusedElement (final (openProject i s)) = activeElement s
     \<and> currentProjectIndex (final (openProject i s)) = i
     \<and> activeElement (closeOverlay (final (openProject i s)))
         = focus_after_close (final (openProject i s)) (activeElement s)
     \<and> (if slug_throws (projectsData s ! nat i)
        then isOverlayOpen (final (openProject i s)) = isOverlayOpen s
          \<and> activeElement (final (openProject i s)) = activeElement s
        else isOverlayOpen (final (openProject i s))
          \<and> activeElement (final (openProject i s))
              = (if hasDetail s then after_removal (activeElement s) else activeElement s)
          \<and> (\<forall>h. \<not> isOverlayOpen (closeOverlay (fireTimer h (final (openProject i s))))
                 \<and> activeElement (closeOverlay (fireTimer h (final (openProject i s))))
                     = focus_after_close (fireTimer h (final (openProject i s)))
                         (activeElement s)))"
proof -
  let ?p = "projectsData s ! nat i"
  let ?t = "final (openProject i s)"
  from assms have get: "array_get (projectsData s) i = Some ?p"
    by (simp add: array_get_def)
  from assms have ne: "projectsData s \<noteq> []" by auto
  show ?thesis
  proof (cases "slug_throws ?p")
    case True
    from openProject_throw [OF assms(1) get True] obtain s' where
      s': "openProject i s = Threw TypeError s'" "isOverlayOpen s' = isOverlayOpen s"
      "currentProjectIndex s' = i" "lastFocusedElement s' = activeElement s"
      "activeElement s' = activeElement s" "overlay s'"
      by blast
    from closeOverlay_focus [OF s'(6)] s' True show ?thesis
      by (cases "activeElement s") (simp_all add: focus_after_close_def)
  next
    case False
    with get have "case array_get (projectsData s) i of None \<Rightarrow> True | Some p \<Rightarrow> \<not> slug_throws p"
      by simp
    from openProject_return [OF assms(1) ne this] get obtain s' where
      s': "openProject i s = Returned s'" "isOverlayOpen s'"
      "currentProjectIndex s' = i" "lastFocusedElement s' = activeElement s"
      "activeElement s' = (if hasDetail s then after_removal (activeElement s) else activeElement s)"
      "overlay s'"
      by auto
    have now: "\<not> isOverlayOpen (closeOverlay s')
        \<and> activeElement (closeOverlay s') = focus_after_close s' (activeElement s)"
      using closeOverlay_focus [OF s'(6)] s'(2,4)
      by (cases "activeElement s") (simp_all add: focus_after_close_def)
    have later: "\<not> isOverlayOpen (closeOverlay (fireTimer h s'))
        \<and> activeElement (closeOverlay (fireTimer h s'))
            = focus_after_close (fireTimer h s') (activeElement s)" for h
    proof -
      have o: "overlay (fireTimer h s')" using fireTimer_vars [of h s'] s'(6) by simp
      from closeOverlay_focus [OF o] fireTimer_vars [of h s'] s'(2,4) show ?thesis
        by (cases "activeElement s") (simp_all add: focus_after_close_def)
    qed
    from now later s' False show ?thesis by simp
  qed
qed

theorem open_then_close_witness:
  "\<not> isOverlayOpen (closeOverlay (final (openProject 1 page0)))
   \<and> isOverlayOpen (final (openProject 1 page0))
   \<and> activeElement (closeOverlay (final (openProject 1 page0))) = Some (GridItemBtn 1)
   \<and> activeElement (fireTimer 1 (final (openProject 1 page0))) = Some OverlayClose
   \<and> activeElement (closeOverlay (fireTimer 1 (final (openProject 1 page0))))
       = Some (GridItemBtn 1)"
proof -
  have pre: "overlay page0" "(0::int) \<le> 1" "1 < int (length (projectsData page0))"
    "\<not> slug_throws (projectsData page0 ! nat 1)" "activeElement page0 = Some (GridItemBtn 1)"
    by (simp_all add: page0_def titled_def slug_throws_def)
  have fired: "activeElement (fireTimer 1 (final (openProject 1 page0))) = Some OverlayClose"
    by (simp add: page0_def titled_def slug_throws_def truthy_def openProject_def Let_def
        clearArmedGridItem_def array_get_def preloadProjectHeroImage_def
        renderProjectDetail_def updateNavButtons_def setTimeout_def fireTimer_def
        runCallback_def clearTimeout_def focus_def)
  from open_then_close [OF pre(1,2,3)] pre(4,5) fired show ?thesis
    by (simp add: focus_after_close_def)
qed

theorem open_then_close_counterexample:
  "overlay page_lang_focus \<and> isOverlayOpen page_lang_focus
   \<and> length (projectsData page_lang_focus) = 2
   \<and> activeElement page_lang_focus = Some (DetailElement 1 1)
   \<and> lastFocusedElement (final (openProject 1 page_lang_focus)) = Some (DetailElement 1 1)
   \<and> \<not> isOverlayOpen (closeOverlay (final (openProject 1 page_lang_focus)))
   \<and> activeElement (closeOverlay (final (openProject 1 page_lang_focus))) = Some Body"
  by (simp add: page_lang_focus_def page0_def titled_def slug_throws_def truthy_def
      openProject_def Let_def clearArmedGridItem_def array_get_def preloadProjectHeroImage_def
      renderProjectDetail_def updateNavButtons_def setTimeout_def closeOverlay_def focus_def)


subsection \<open>Closing\<close>

text \<open>
  C10. \<open>closeOverlay\<close> assigns \<open>isOverlayOpen\<close> and nothing else among the module
  variables: \<open>currentProjectIndex\<close> and \<open>lastFocusedElement\<close> (and the project list
  and the arm state) are what they were, so the index of the project that was open
  survives the close.
\<close>

theorem closeOverlay_frame:
  "currentProjectIndex (closeOverlay s) = currentProjectIndex s
   \<and> lastFocusedElement (closeOverlay s) = lastFocusedElement s
   \<and> projectsData (closeOverlay s) = projectsData s
   \<and> armedGridIndex (closeOverlay s) = armedGridIndex s
   \<and> armedGridResetTimer (closeOverlay s) = armedGridResetTimer s
   \<and> closeOverlay s\<lparr>isOverlayOpen := isOverlayOpen s, ariaHidden := ariaHidden s,
        bodyOverlayOpen := bodyOverlayOpen s, activeElement := activeElement s\<rparr> = s"
  by (simp add: closeOverlay_def focus_def Let_def split: option.split)

theorem closeOverlay_frame_witness:
  "currentProjectIndex (closeOverlay page_open_last) = 2
   \<and> lastFocusedElement (closeOverlay page_open_last) = Some (GridItemBtn 1)
   \<and> \<not> isOverlayOpen (closeOverlay page_open_last)"
  using closeOverlay_frame [of page_open_last]
  by (simp add: closeOverlay_def focus_def page_open_last_def page0_def)

subsection \<open>Previous and next\<close>

text \<open>
  C2. With the overlay open on a valid index \<open>i\<close> of \<open>N\<close> projects,
  \<open>goToNextProject\<close> leaves the index at \<open>i + 1\<close> and \<open>goToPrevProject\<close> at
  \<open>i - 1\<close>, except at the ends: at \<open>i = N - 1\<close> the former, and at \<open>i = 0\<close> the
  latter, returns the page exactly as it was, with no wrap-around. Neither ever changes
  \<open>isOverlayOpen\<close> or \<open>lastFocusedElement\<close>. The index has moved even when the
  re-render throws.
\<close>

theorem goTo_clamped:
  assumes "isOverlayOpen s"
    and "0 \<le> currentProjectIndex s"
    and "currentProjectIndex s < int (length (projectsData s))"
  shows
    "currentProjectIndex (final (goToNextProject s)) =
       (if currentProjectIndex s = int (length (projectsData s)) - 1
        then currentProjectIndex s else currentProjectIndex s + 1)
     \<and> currentProjectIndex (final (goToPrevProject s)) =
       (if currentProjectIndex s = 0 then currentProjectIndex s else currentProjectIndex s - 1)
     \<and> (if currentProjectIndex s = int (length (projectsData s)) - 1
        then goToNextProject s = Returned s else goToNextProject s \<noteq> Returned s)
     \<and> (if currentProjectIndex s = 0
        then goToPrevProject s = Returned s else goToPrevProject s \<noteq> Returned s)
     \<and> isOverlayOpen (final (goToNextProject s)) \<and> isOverlayOpen (final (goToPrevProject s))
     \<and> lastFocusedElement (final (goToNextProject s)) = lastFocusedElement s
     \<and> lastFocusedElement (final (goToPrevProject s)) = lastFocusedElement s"
proof -
  let ?n = "int (length (projectsData s))"
  let ?i = "currentProjectIndex s"
  have next_idx: "currentProjectIndex (final (goToNextProject s)) =
      (if ?i = ?n - 1 then ?i else ?i + 1)"
    using assms(3) rerender_vars by (simp add: goToNextProject_def Let_def)
  have prev_idx: "currentProjectIndex (final (goToPrevProject s)) =
      (if ?i = 0 then ?i else ?i - 1)"
    using assms(2) rerender_vars by (simp add: goToPrevProject_def Let_def)
  have next_ret: "if ?i = ?n - 1 then goToNextProject s = Returned s
      else goToNextProject s \<noteq> Returned s"
  proof (cases "?i = ?n - 1")
    case True
    then show ?thesis by (simp add: goToNextProject_def)
  next
    case False
    have "currentProjectIndex (final (goToNextProject s)) \<noteq> currentProjectIndex (final (Returned s))"
      using next_idx False by simp
    then have "goToNextProject s \<noteq> Returned s" by metis
    with False show ?thesis by simp
  qed
  have prev_ret: "if ?i = 0 then goToPrevProject s = Returned s
      else goToPrevProject s \<noteq> Returned s"
  proof (cases "?i = 0")
    case True
    then show ?thesis by (simp add: goToPrevProject_def)
  next
    case False
    have "currentProjectIndex (final (goToPrevProject s)) \<noteq> currentProjectIndex (final (Returned s))"
      using prev_idx False by simp
    then have "goToPrevProject s \<noteq> Returned s" by metis
    with False show ?thesis by simp
  qed
  have opens: "isOverlayOpen (final (goToNextProject s)) \<and> isOverlayOpen (final (goToPrevProject s))"
    using assms(1) rerender_vars by (simp add: goToNextProject_def goToPrevProject_def Let_def)
  have foc: "lastFocusedElement (final (goToNextProject s)) = lastFocusedElement s
      \<and> lastFocusedElement (final (goToPrevProject s)) = lastFocusedElement s"
    using rerender_vars by (simp add: goToNextProject_def goToPrevProject_def Let_def)
  from next_idx prev_idx next_ret prev_ret opens foc show ?thesis by simp
qed

theorem goTo_clamped_witness:
  "goToNextProject page_open_last = Returned page_open_last
   \<and> currentProjectIndex (final (goToPrevProject page_open_last)) = 1
   \<and> isOverlayOpen (final (goToPrevProject page_open_last))"
  using goTo_clamped [of page_open_last]
  by (simp add: page_open_last_def page0_def)

section \<open>Properties of the arm-then-open interaction\<close>

lemma set_disarm_handles:
  "set (disarm_handles s) = {h. (h, DisarmTimeout) \<in> set (timers s)}"
  by (force simp: disarm_handles_def)

lemma armed_ok_iff:
  "armed_ok s \<longleftrightarrow>
     armedClass s = (if armedGridIndex s < 0 then {} else {nat (armedGridIndex s)})
     \<and> - 1 \<le> armedGridIndex s \<and> armedGridIndex s < int (gridItemContainers s)
     \<and> (\<forall>h. (h, DisarmTimeout) \<in> set (timers s) \<longrightarrow> armedGridResetTimer s = Some h)
     \<and> (\<forall>h. armedGridResetTimer s = Some h \<longrightarrow> 0 < h \<and> h \<le> timerSeq s)"
  by (auto simp: armed_ok_def list_all_iff set_disarm_handles split: option.splits)

lemma clearArmedGridItem_armed:
  assumes "armed_ok s"
  shows "armedClass (clearArmedGridItem s) = {}"
    and "armedGridIndex (clearArmedGridItem s) = - 1"
    and "armedGridResetTimer (clearArmedGridItem s) = None"
    and "gridItemContainers (clearArmedGridItem s) = gridItemContainers s"
    and "timerSeq (clearArmedGridItem s) = timerSeq s"
    and "timers (clearArmedGridItem s) =
           (case armedGridResetTimer s of
              None \<Rightarrow> timers s
            | Some h \<Rightarrow> filter (\<lambda>(k, cb). k \<noteq> h) (timers s))"
  using assms
  by (auto simp: armed_ok_iff clearArmedGridItem_def clearTimeout_def Let_def
      split: option.splits if_splits)

lemma armed_ok_clear:
  assumes "armed_ok s"
  shows "armed_ok (clearArmedGridItem s)"
  unfolding armed_ok_iff [of "clearArmedGridItem s"]
  using assms clearArmedGridItem_armed [OF assms]
  by (auto simp: armed_ok_iff split: option.splits)

lemma armed_ok_arm:
  assumes "armed_ok s"
  shows "armed_ok (armGridItem i s)"
proof -
  let ?c = "clearArmedGridItem s"
  note c = clearArmedGridItem_armed [OF assms]
  have ok: "armed_ok ?c" by (rule armed_ok_clear [OF assms])
  have nodis: "\<And>h. (h, DisarmTimeout) \<notin> set (timers ?c)"
    using ok c(3) by (auto simp: armed_ok_iff)
  show ?thesis
  proof (cases "i < 0 \<or> int (gridItemContainers ?c) \<le> i")
    case True
    then show ?thesis using ok by (simp add: armGridItem_def Let_def)
  next
    case False
    then show ?thesis
      using c(1,2,3,4,5) nodis
      by (auto simp: armed_ok_iff armGridItem_def Let_def setTimeout_def)
  qed
qed

lemma armed_ok_frame:
  assumes "armed_ok s"
    and "armedClass s' = armedClass s" and "armedGridIndex s' = armedGridIndex s"
    and "gridItemContainers s' = gridItemContainers s"
    and "armedGridResetTimer s' = armedGridResetTimer s"
    and "timers s' = timers s" and "timerSeq s' = timerSeq s"
  shows "armed_ok s'"
  using assms by (auto simp: armed_ok_iff)

lemma armed_ok_render: "armed_ok s \<Longrightarrow> armed_ok (final (renderProjectDetail po s))"
  by (rule armed_ok_frame [of s]) (simp_all add: renderProjectDetail_def split: option.split)

lemma armed_ok_preload: "armed_ok s \<Longrightarrow> armed_ok (final (preloadProjectHeroImage po s))"
  by (rule armed_ok_frame [of s]) (simp_all add: preloadProjectHeroImage_def split: option.split)

lemma armed_ok_nav: "armed_ok s \<Longrightarrow> armed_ok (final (updateNavButtons s))"
  by (rule armed_ok_frame [of s]) (simp_all add: updateNavButtons_def Let_def)

lemma armed_ok_scroll: "armed_ok s \<Longrightarrow> armed_ok (final (scrollOverlayToTop s))"
  by (rule armed_ok_frame [of s]) (simp_all add: scrollOverlayToTop_def)

lemma armed_ok_and_then:
  assumes "armed_ok (final c)" and "\<And>s. armed_ok s \<Longrightarrow> armed_ok (final (f s))"
  shows "armed_ok (final (and_then c f))"
  using assms by (cases c) simp_all

lemma armed_ok_focus_timer:
  assumes "armed_ok s"
  shows "armed_ok (snd (setTimeout FocusCloseTimeout 100 s))"
  using assms by (auto simp: armed_ok_iff setTimeout_def Let_def)

lemma armed_ok_open:
  assumes "armed_ok s"
  shows "armed_ok (final (openProject i s))"
proof (cases "\<not> overlay s \<or> projectsData s = []")
  case True
  then show ?thesis using assms by (simp add: openProject_def)
next
  case False
  let ?s2 = "(clearArmedGridItem s)\<lparr>currentProjectIndex := i,
      lastFocusedElement := activeElement (clearArmedGridItem s)\<rparr>"
  have s2: "armed_ok ?s2"
    by (rule armed_ok_frame [OF armed_ok_clear [OF assms]]) simp_all
  have tail: "armed_ok (final (Returned
      (if hasScroll (snd (setTimeout FocusCloseTimeout 100
            (s5\<lparr>isOverlayOpen := True, ariaHidden := False, bodyOverlayOpen := True\<rparr>)))
       then (snd (setTimeout FocusCloseTimeout 100
            (s5\<lparr>isOverlayOpen := True, ariaHidden := False, bodyOverlayOpen := True\<rparr>)))
              \<lparr>overlayScrollTop := 0\<rparr>
       else snd (setTimeout FocusCloseTimeout 100
            (s5\<lparr>isOverlayOpen := True, ariaHidden := False, bodyOverlayOpen := True\<rparr>)))))"
    if "armed_ok s5" for s5
  proof -
    have a: "armed_ok (s5\<lparr>isOverlayOpen := True, ariaHidden := False, bodyOverlayOpen := True\<rparr>)"
      by (rule armed_ok_frame [OF that]) simp_all
    note b = armed_ok_focus_timer [OF a]
    have "armed_ok ((snd (setTimeout FocusCloseTimeout 100
            (s5\<lparr>isOverlayOpen := True, ariaHidden := False, bodyOverlayOpen := True\<rparr>)))
              \<lparr>overlayScrollTop := 0\<rparr>)"
      by (rule armed_ok_frame [OF b]) simp_all
    with b show ?thesis by simp
  qed
  show ?thesis
    using False
    apply (simp add: openProject_def Let_def)
    apply (rule armed_ok_and_then)
     apply (rule armed_ok_preload [OF s2])
    apply (rule armed_ok_and_then)
     apply (erule armed_ok_render)
    apply (rule armed_ok_and_then)
     apply (erule armed_ok_nav)
    apply (erule tail)
    done
qed


lemma armed_ok_close: "armed_ok s \<Longrightarrow> armed_ok (closeOverlay s)"
  by (rule armed_ok_frame [of s])
    (simp_all add: closeOverlay_def focus_def Let_def split: option.split)

lemma armed_ok_rerender:
  assumes "armed_ok s"
  shows "armed_ok (final (and_then (renderProjectDetail po s)
           (\<lambda>s2. and_then (updateNavButtons s2) scrollOverlayToTop)))"
  by (intro armed_ok_and_then armed_ok_render armed_ok_nav armed_ok_scroll assms)

lemma armed_ok_prev:
  assumes "armed_ok s"
  shows "armed_ok (final (goToPrevProject s))"
proof (cases "currentProjectIndex s > 0")
  case True
  have "armed_ok (s\<lparr>currentProjectIndex := currentProjectIndex s - 1\<rparr>)"
    by (rule armed_ok_frame [OF assms]) simp_all
  from armed_ok_rerender [OF this] True show ?thesis
    by (simp add: goToPrevProject_def Let_def)
next
  case False
  then show ?thesis using assms by (simp add: goToPrevProject_def)
qed

lemma armed_ok_next:
  assumes "armed_ok s"
  shows "armed_ok (final (goToNextProject s))"
proof (cases "currentProjectIndex s < int (length (projectsData s)) - 1")
  case True
  have "armed_ok (s\<lparr>currentProjectIndex := currentProjectIndex s + 1\<rparr>)"
    by (rule armed_ok_frame [OF assms]) simp_all
  from armed_ok_rerender [OF this] True show ?thesis
    by (simp add: goToNextProject_def Let_def)
next
  case False
  then show ?thesis using assms by (simp add: goToNextProject_def)
qed

lemma armed_ok_fire:
  assumes "armed_ok s"
  shows "armed_ok (fireTimer h s)"
proof (cases "map_of (timers s) h")
  case None
  then show ?thesis using assms by (simp add: fireTimer_def)
next
  case (Some cb)
  have c: "armed_ok (clearTimeout h s)" if "cb = FocusCloseTimeout \<or> armedGridResetTimer s = Some h"
    using assms that by (auto simp: armed_ok_iff clearTimeout_def)
  show ?thesis
  proof (cases cb)
    case DisarmTimeout
    with Some have "(h, DisarmTimeout) \<in> set (timers s)" by (simp add: map_of_SomeD)
    with assms have "armedGridResetTimer s = Some h" by (simp add: armed_ok_iff)
    then show ?thesis
      using Some DisarmTimeout c armed_ok_clear by (simp add: fireTimer_def runCallback_def)
  next
    case FocusCloseTimeout
    then have "armed_ok (clearTimeout h s)" using c by simp
    then have "armed_ok (if hasCloseBtn (clearTimeout h s)
        then focus OverlayClose (clearTimeout h s) else clearTimeout h s)"
      by (simp add: armed_ok_iff focus_def)
    then show ?thesis
      using Some FocusCloseTimeout by (simp add: fireTimer_def runCallback_def)
  qed
qed

lemma armed_ok_dispatch:
  assumes "armed_ok s"
  shows "armed_ok (dispatch e s)"
proof (cases e)
  case (GridItemClick d i)
  then show ?thesis
    using assms armed_ok_open armed_ok_clear armed_ok_arm by (simp add: gridItemClick_def)
next
  case (GridItemKeydown k i)
  then show ?thesis
    using assms armed_ok_open armed_ok_clear by (simp add: gridItemKeydown_def)
next
  case (DocumentKeydown k)
  then show ?thesis
    using assms armed_ok_close armed_ok_prev armed_ok_next
    by (cases k) (simp_all add: handleKeyDown_def)
qed (simp_all add: assms armed_ok_clear armed_ok_close armed_ok_prev armed_ok_next armed_ok_fire
    armed_ok_open)

lemma initial_armed_ok: "initial s \<Longrightarrow> armed_ok s"
  by (simp add: initial_def armed_ok_def disarm_handles_def)

lemma reachable_armed_ok: "reachable s \<Longrightarrow> armed_ok s"
  by (induction rule: reachable.induct) (simp_all add: initial_armed_ok armed_ok_dispatch)

text \<open>
  C7. On every page that events can lead to, at most one tile carries the armed class.
  When tile \<open>k\<close> is armed, with its disarm timeout \<open>h\<close> pending, arming another tile
  \<open>j\<close> removes the class from \<open>k\<close> and cancels \<open>h\<close>: afterwards only \<open>j\<close> is
  armed, \<open>h\<close> is no longer pending, so its firing does nothing, and the one pending
  disarm timeout is the fresh one of \<open>j\<close>.
\<close>

theorem arm_exclusive:
  assumes "reachable s"
  shows "card (armedClass s) \<le> 1
     \<and> (\<forall>k h j. armedGridIndex s = int k \<and> armedGridResetTimer s = Some h
            \<and> j < gridItemContainers s \<and> j \<noteq> k \<longrightarrow>
          armedClass s = {k}
          \<and> armedClass (armGridItem (int j) s) = {j}
          \<and> armedGridIndex (armGridItem (int j) s) = int j
          \<and> h \<notin> fst ` set (timers (armGridItem (int j) s))
          \<and> fireTimer h (armGridItem (int j) s) = armGridItem (int j) s
          \<and> armedGridResetTimer (armGridItem (int j) s) = Some (Suc (timerSeq s))
          \<and> (Suc (timerSeq s), DisarmTimeout) \<in> set (timers (armGridItem (int j) s)))"
proof -
  have ok: "armed_ok s" by (rule reachable_armed_ok [OF assms])
  then have one: "card (armedClass s) \<le> 1" by (simp add: armed_ok_def)
  have rest: "armedClass s = {k}
          \<and> armedClass (armGridItem (int j) s) = {j}
          \<and> armedGridIndex (armGridItem (int j) s) = int j
          \<and> h \<notin> fst ` set (timers (armGridItem (int j) s))
          \<and> fireTimer h (armGridItem (int j) s) = armGridItem (int j) s
          \<and> armedGridResetTimer (armGridItem (int j) s) = Some (Suc (timerSeq s))
          \<and> (Suc (timerSeq s), DisarmTimeout) \<in> set (timers (armGridItem (int j) s))"
    if k: "armedGridIndex s = int k" and h: "armedGridResetTimer s = Some h"
      and j: "j < gridItemContainers s" for k h j
  proof -
    note c = clearArmedGridItem_armed [OF ok]
    have before: "armedClass s = {k}" using ok k by (simp add: armed_ok_def)
    have hle: "h \<le> timerSeq s" using ok h by (simp add: armed_ok_def)
    have tm: "timers (armGridItem (int j) s) =
        filter (\<lambda>(k, cb). k \<noteq> h) (timers s) @ [(Suc (timerSeq s), DisarmTimeout)]"
      using c j h by (simp add: armGridItem_def Let_def setTimeout_def)
    have gone: "h \<notin> fst ` set (timers (armGridItem (int j) s))"
      using hle by (auto simp: tm)
    then have "map_of (timers (armGridItem (int j) s)) h = None"
      by (simp add: map_of_eq_None_iff)
    then have fire: "fireTimer h (armGridItem (int j) s) = armGridItem (int j) s"
      by (simp add: fireTimer_def)
    have after: "armedClass (armGridItem (int j) s) = {j}"
      "armedGridIndex (armGridItem (int j) s) = int j"
      "armedGridResetTimer (armGridItem (int j) s) = Some (Suc (timerSeq s))"
      using c j by (simp_all add: armGridItem_def Let_def setTimeout_def)
    from before after gone fire tm show ?thesis by simp
  qed
  from one rest show ?thesis by blast
qed

theorem arm_exclusive_witness:
  "armedClass (dispatch (GridItemClick False 2) page0) = {2}
   \<and> armedGridResetTimer (dispatch (GridItemClick False 2) page0) = Some 1
   \<and> armedClass (armGridItem 5 (dispatch (GridItemClick False 2) page0)) = {5}
   \<and> 1 \<notin> fst ` set (timers (armGridItem 5 (dispatch (GridItemClick False 2) page0)))
   \<and> fireTimer 1 (armGridItem 5 (dispatch (GridItemClick False 2) page0))
       = armGridItem 5 (dispatch (GridItemClick False 2) page0)"
proof -
  have init: "initial page0" by (simp add: initial_def page0_def)
  have r: "reachable (dispatch (GridItemClick False 2) page0)"
    by (rule reachable.event [OF reachable.start [OF init]])
  have st: "armedGridIndex (dispatch (GridItemClick False 2) page0) = int 2"
    "armedGridResetTimer (dispatch (GridItemClick False 2) page0) = Some 1"
    "(5::nat) < gridItemContainers (dispatch (GridItemClick False 2) page0)"
    by (simp_all add: page0_def gridItemClick_def armGridItem_def clearArmedGridItem_def
        setTimeout_def Let_def)
  note w = arm_exclusive [OF r, THEN conjunct2, rule_format, of 2 1 5]
  from w st show ?thesis
    by (simp del: dispatch.simps)
qed

section \<open>Properties of the deep link\<close>

lemma findIndex_takeWhile:
  "findIndex P xs = (if list_ex P xs then int (length (takeWhile (\<lambda>x. \<not> P x) xs)) else - 1)"
  by (induction xs) (auto simp: Let_def)

lemma takeWhile_first:
  assumes "list_ex P xs"
  shows "length (takeWhile (\<lambda>x. \<not> P x) xs) < length xs"
  using assms by (induction xs) auto

lemma normalizeProjectKey_falsy:
  "toLowerCase B [] = [] \<Longrightarrow> \<not> truthy v \<Longrightarrow> normalizeProjectKey B v = []"
  by (cases v) (simp_all add: normalizeProjectKey_def truthy_def)

lemma openProjectFromQueryParam_eq:
  assumes "overlay s" and "projectsData s \<noteq> []" and "toLowerCase B [] = []"
  shows "openProjectFromQueryParam B (Some P) autopopup s =
       (if normalizeProjectKey B (Some P) \<noteq> []
           \<and> list_ex (key_matches B (normalizeProjectKey B (Some P))) (projectsData s)
        then Some (int (length (takeWhile
               (\<lambda>p. \<not> key_matches B (normalizeProjectKey B (Some P)) p) (projectsData s))))
        else if autopopup = Some ''1'' then Some 0 else None)"
proof (cases "truthy (Some P)")
  case True
  then show ?thesis
    using assms
    by (simp add: openProjectFromQueryParam_def findProjectIndexFromParam_def Let_def
        findIndex_takeWhile)
next
  case False
  then show ?thesis
    using assms normalizeProjectKey_falsy [OF assms(3) False]
    by (simp add: openProjectFromQueryParam_def findProjectIndexFromParam_def Let_def)
qed

lemma openProject_valid:
  assumes "overlay s" and "0 \<le> i" and "i < int (length (projectsData s))"
  shows "if slug_throws (projectsData s ! nat i)
     then (case openProject i s of
             Threw e s' \<Rightarrow> e = TypeError \<and> isOverlayOpen s' = isOverlayOpen s
           | Returned s' \<Rightarrow> False)
     else (case openProject i s of
             Returned s' \<Rightarrow> isOverlayOpen s' \<and> currentProjectIndex s' = i
           | Threw e s' \<Rightarrow> False)"
proof -
  let ?p = "projectsData s ! nat i"
  from assms have get: "array_get (projectsData s) i = Some ?p"
    by (simp add: array_get_def)
  from assms have ne: "projectsData s \<noteq> []" by auto
  show ?thesis
  proof (cases "slug_throws ?p")
    case True
    from openProject_throw [OF assms(1) get True] show ?thesis using True by auto
  next
    case False
    with get have "case array_get (projectsData s) i of None \<Rightarrow> True | Some p \<Rightarrow> \<not> slug_throws p"
      by simp
    from openProject_return [OF assms(1) ne this] show ?thesis using False by auto
  qed
qed

text \<open>
  C8 (as amended). On a page with an overlay element and at least one project, loaded
  with \<open>project=P\<close>: when the normalization of \<open>P\<close> is not empty and some record has
  a slug, display title, title or index with the same normalization, \<open>openProject\<close> is
  called on the first such record. Otherwise, which includes every \<open>P\<close> whose
  normalization is empty whatever the records are, \<open>openProject\<close> is called on index 0
  when \<open>autopopup=1\<close> and is not called, the overlay staying closed, when \<open>autopopup\<close> is
  not \<open>1\<close>. The call opens the overlay on its record when the record has a slug or a
  title; on a record with neither it throws a TypeError before the overlay is open.
  Of the lower-casing of the language only that it maps the empty string to itself is
  used. Without the condition on the normalization of \<open>P\<close> the property fails: a title
  and a \<open>P\<close> that are the same Hangul syllable normalize to the same (empty) string,
  and the record is not opened.
\<close>

theorem query_param_open:
  assumes "overlay s" and "projectsData s \<noteq> []" and "toLowerCase B [] = []"
  shows
    "openProjectFromQueryParam B (Some P) autopopup s =
       (if normalizeProjectKey B (Some P) \<noteq> []
           \<and> list_ex (key_matches B (normalizeProjectKey B (Some P))) (projectsData s)
        then Some (int (length (takeWhile
               (\<lambda>p. \<not> key_matches B (normalizeProjectKey B (Some P)) p) (projectsData s))))
        else if autopopup = Some ''1'' then Some 0 else None)
     \<and> (case openProjectFromQueryParam B (Some P) autopopup s of
          None \<Rightarrow> pageLoadQuery B (Some P) autopopup s = Returned s
        | Some i \<Rightarrow>
            pageLoadQuery B (Some P) autopopup s = openProject i s
            \<and> 0 \<le> i \<and> i < int (length (projectsData s))
            \<and> (if slug_throws (projectsData s ! nat i)
               then (case openProject i s of
                       Threw e s' \<Rightarrow> e = TypeError \<and> isOverlayOpen s' = isOverlayOpen s
                     | Returned s' \<Rightarrow> False)
               else (case openProject i s of
                       Returned s' \<Rightarrow> isOverlayOpen s' \<and> currentProjectIndex s' = i
                     | Threw e s' \<Rightarrow> False)))"
proof -
  let ?m = "key_matches B (normalizeProjectKey B (Some P))"
  note decide = openProjectFromQueryParam_eq [OF assms, of P autopopup]
  have range: "0 \<le> i \<and> i < int (length (projectsData s))"
    if "openProjectFromQueryParam B (Some P) autopopup s = Some i" for i
    using that assms(2) takeWhile_first [of ?m "projectsData s"]
    by (auto simp: decide split: if_splits)
  show ?thesis
  proof (cases "openProjectFromQueryParam B (Some P) autopopup s")
    case None
    then show ?thesis using decide by (simp add: pageLoadQuery_def)
  next
    case (Some i)
    note r = range [OF Some]
    from r have "0 \<le> i" and "i < int (length (projectsData s))" by simp_all
    from openProject_valid [OF assms(1) this] Some r decide show ?thesis
      by (simp add: pageLoadQuery_def)
  qed
qed

lemma normalize_examples:
  "normalizeProjectKey ascii (Some ''soft-concrete'') = ''softconcrete''"
  "normalizeProjectKey ascii (Some ''Soft Concrete'') = ''softconcrete''"
  "normalizeProjectKey ascii (Some ''House & Garden'') = ''houseandgarden''"
  "normalizeProjectKey ascii (Some ''house-and-garden'') = ''houseandgarden''"
  "normalizeProjectKey ascii (Some ''Atlas'') = ''atlas''"
  "normalizeProjectKey ascii (Some ''doesnotexist'') = ''doesnotexist''"
  "normalizeProjectKey ascii (Some [CHR 0xEC, CHR 0xA7, CHR 0x91]) = []"
  "normalizeProjectKey ascii None = []"
  by code_simp+

lemma ascii_empty: "toLowerCase ascii [] = []"
  by (simp add: ascii_def ascii_toLowerCase_def)

theorem query_param_open_witness:
  "openProjectFromQueryParam ascii (Some ''house-and-garden'') None page0 = Some 1
   \<and> isOverlayOpen (final (pageLoadQuery ascii (Some ''house-and-garden'') None page0))
   \<and> currentProjectIndex (final (pageLoadQuery ascii (Some ''house-and-garden'') None page0)) = 1
   \<and> openProjectFromQueryParam ascii (Some ''doesnotexist'') (Some ''1'') page0 = Some 0"
proof -
  have pre: "overlay page0" "projectsData page0 \<noteq> []" by (simp_all add: page0_def)
  have data: "projectsData page0 =
      [titled ''Soft Concrete'', titled ''House & Garden'', titled ''Atlas'']"
    by (simp add: page0_def)
  have m: "\<not> key_matches ascii ''houseandgarden'' (titled ''Soft Concrete'')"
    "key_matches ascii ''houseandgarden'' (titled ''House & Garden'')"
    "\<not> key_matches ascii ''doesnotexist'' (titled ''Soft Concrete'')"
    "\<not> key_matches ascii ''doesnotexist'' (titled ''House & Garden'')"
    "\<not> key_matches ascii ''doesnotexist'' (titled ''Atlas'')"
    by (simp_all add: key_matches_def titled_def normalize_examples)
  have nt: "\<not> slug_throws (titled ''House & Garden'')"
    by (simp add: slug_throws_def titled_def)
  note q = query_param_open [OF pre ascii_empty, of "''house-and-garden''" None]
  note q' = query_param_open [OF pre ascii_empty, of "''doesnotexist''" "Some ''1''"]
  have d: "openProjectFromQueryParam ascii (Some ''house-and-garden'') None page0 = Some 1"
    using q [THEN conjunct1] by (simp add: data normalize_examples m)
  have d': "openProjectFromQueryParam ascii (Some ''doesnotexist'') (Some ''1'') page0 = Some 0"
    using q' [THEN conjunct1] by (simp add: data normalize_examples m)
  from q [THEN conjunct2] d' show ?thesis
    by (cases "openProject 1 page0") (simp_all add: d data nt)
qed

theorem query_param_counterexample:
  "normalizeProjectKey ascii (title (projectsData page_kr ! 2))
     = normalizeProjectKey ascii (Some [CHR 0xEC, CHR 0xA7, CHR 0x91])
   \<and> overlay page_kr
   \<and> openProjectFromQueryParam ascii (Some [CHR 0xEC, CHR 0xA7, CHR 0x91]) None page_kr = None
   \<and> pageLoadQuery ascii (Some [CHR 0xEC, CHR 0xA7, CHR 0x91]) None page_kr = Returned page_kr
   \<and> openProjectFromQueryParam ascii (Some [CHR 0xEC, CHR 0xA7, CHR 0x91]) (Some ''1'') page_kr
       = Some 0"
  by (simp add: page_kr_def page0_def titled_def openProjectFromQueryParam_def
      pageLoadQuery_def findProjectIndexFromParam_def normalize_examples truthy_def)

section \<open>Properties of the language toggle\<close>

lemma clicks_snoc: "clicks (bs @ [b]) d = langBtnClick (data_lang b) (clicks bs d)"
  by (simp add: clicks_def)

lemma clicks_langToggle: "langToggle (clicks bs d) = langToggle d"
  by (induction bs rule: rev_induct) (simp_all add: clicks_def langBtnClick_def)

text \<open>
  C9. For a project with both a description and a Korean description, after any
  sequence of clicks on the two language buttons the primary paragraph has
  \<open>display\<close> empty, so it is shown: no click ever hides it. The translation is shown
  exactly when the last click was on KR; before any click, and after a click on EN, it
  has \<open>display: none\<close>.
\<close>

theorem lang_toggle_primary_shown:
  assumes "truthy (description p)" and "truthy (description_ko p)"
  shows "descEn (clicks bs (renderDescription p)) = Some ''''
     \<and> shown (descEn (clicks bs (renderDescription p)))
     \<and> descKo (clicks bs (renderDescription p))
         = Some (if bs = [] \<or> last bs = EN then ''none'' else '''')
     \<and> shown (descKo (clicks bs (renderDescription p))) = (bs \<noteq> [] \<and> last bs = KR)"
proof (induction bs rule: rev_induct)
  case Nil
  show ?case using assms by (simp add: clicks_def renderDescription_def shown_def)
next
  case (snoc b bs)
  have tog: "langToggle (clicks bs (renderDescription p))"
    using assms by (simp add: clicks_langToggle renderDescription_def)
  show ?case
    using snoc tog
    by (cases b) (simp_all add: clicks_snoc langBtnClick_def set_display_def shown_def)
qed

theorem lang_toggle_primary_shown_witness:
  "shown (descEn (clicks [KR, EN, KR] (renderDescription bilingual)))
   \<and> shown (descKo (clicks [KR, EN, KR] (renderDescription bilingual)))
   \<and> shown (descEn (clicks [KR, EN] (renderDescription bilingual)))
   \<and> \<not> shown (descKo (clicks [KR, EN] (renderDescription bilingual)))"
proof -
  have b: "truthy (description bilingual)" "truthy (description_ko bilingual)"
    by (simp_all add: bilingual_def titled_def truthy_def)
  from lang_toggle_primary_shown [OF b, of "[KR, EN, KR]"]
    lang_toggle_primary_shown [OF b, of "[KR, EN]"]
  show ?thesis by (simp add: shown_def)
qed

section \<open>Properties of the image fallback\<close>

declare tryLoad.simps [simp del] tryNextUrl.simps [simp del]

lemma tryLoad_drop:
  "tryLoad loads cs i = (case find loads (drop i cs) of None \<Rightarrow> '''' | Some u \<Rightarrow> u)"
proof (induction loads cs i rule: tryLoad.induct)
  case (1 loads cs i)
  show ?case
  proof (cases "i \<ge> length cs")
    case True
    then show ?thesis by (simp add: tryLoad.simps [of loads cs i])
  next
    case False
    then have d: "drop i cs = cs ! i # drop (i + 1) cs"
      by (simp add: Cons_nth_drop_Suc)
    show ?thesis
      using False "1.IH" by (simp add: tryLoad.simps [of loads cs i] d)
  qed
qed

lemma tryNextUrl_drop:
  "tryNextUrl loads us i th =
     (case find loads (drop i us) of
        None \<Rightarrow> th\<lparr>requested := requested th @ drop i us,
                  classPlaceholder := True, classLoaded := True\<rparr>
      | Some u \<Rightarrow>
          th\<lparr>requested := requested th @ takeWhile (\<lambda>u. \<not> loads u) (drop i us) @ [u],
             backgroundImage := ''url('' @ [CHR 0x27] @ u @ [CHR 0x27] @ '')'',
             classLoaded := True\<rparr>)"
proof (induction loads us i th rule: tryNextUrl.induct)
  case (1 loads us i th)
  show ?case
  proof (cases "i \<ge> length us")
    case True
    then show ?thesis by (simp add: tryNextUrl.simps [of loads us i th])
  next
    case False
    then have d: "drop i us = us ! i # drop (i + 1) us"
      by (simp add: Cons_nth_drop_Suc)
    show ?thesis
    proof (cases "loads (us ! i)")
      case True
      then show ?thesis using False
        by (simp add: tryNextUrl.simps [of loads us i th] d Let_def)
    next
      case nl: False
      from "1.IH" [OF _ refl nl] False
      have "tryNextUrl loads us (i + 1) (th\<lparr>requested := requested th @ [us ! i]\<rparr>) =
         (case find loads (drop (i + 1) us) of
        None \<Rightarrow> (th\<lparr>requested := requested th @ [us ! i]\<rparr>)\<lparr>requested := requested (th\<lparr>requested := requested th @ [us ! i]\<rparr>) @ drop (i + 1) us,
                  classPlaceholder := True, classLoaded := True\<rparr>
      | Some u \<Rightarrow>
          (th\<lparr>requested := requested th @ [us ! i]\<rparr>)\<lparr>requested := requested (th\<lparr>requested := requested th @ [us ! i]\<rparr>) @ takeWhile (\<lambda>u. \<not> loads u) (drop (i + 1) us) @ [u],
             backgroundImage := ''url('' @ [CHR 0x27] @ u @ [CHR 0x27] @ '')'',
             classLoaded := True\<rparr>)"
        by simp
      then show ?thesis using False nl
        by (simp add: tryNextUrl.simps [of loads us i th] d Let_def split: option.split)
    qed
  qed
qed

text \<open>
  C5. For every candidate list and every outcome of the loads, the chain requests the
  candidates in list order and stops at the first that loads: the requests are the
  failing candidates before it, then it. The tile ends with that candidate as its
  background (no earlier candidate is ever assigned) and without the placeholder class,
  and \<open>preloadImageSequence\<close> resolves to the same candidate. When no candidate loads,
  every candidate has been requested once, the tile ends with the placeholder class and
  the background it had, and \<open>preloadImageSequence\<close> resolves to the empty string.
\<close>

theorem fallback_first_success:
  "requested (tryNextUrl loads urls 0 th) =
     requested th @ takeWhile (\<lambda>u. \<not> loads u) urls
       @ (case find loads urls of None \<Rightarrow> [] | Some u \<Rightarrow> [u])
   \<and> (case find loads urls of
        Some u \<Rightarrow>
          backgroundImage (tryNextUrl loads urls 0 th)
            = ''url('' @ [CHR 0x27] @ u @ [CHR 0x27] @ '')''
          \<and> classPlaceholder (tryNextUrl loads urls 0 th) = classPlaceholder th
          \<and> preloadImageSequence loads urls = u
          \<and> loads u
          \<and> list_all (\<lambda>v. \<not> loads v) (takeWhile (\<lambda>u. \<not> loads u) urls)
      | None \<Rightarrow>
          classPlaceholder (tryNextUrl loads urls 0 th)
          \<and> backgroundImage (tryNextUrl loads urls 0 th) = backgroundImage th
          \<and> preloadImageSequence loads urls = '''')
   \<and> classLoaded (tryNextUrl loads urls 0 th)"
proof (cases "find loads urls")
  case None
  then have tw: "takeWhile (\<lambda>u. \<not> loads u) urls = urls"
    by (simp add: find_None_iff takeWhile_eq_all_conv)
  show ?thesis
    using None unfolding tw
    by (simp add: tryNextUrl_drop tryLoad_drop preloadImageSequence_def)
next
  case (Some u)
  then have "loads u" by (auto simp: find_Some_iff)
  moreover have "list_all (\<lambda>v. \<not> loads v) (takeWhile (\<lambda>u. \<not> loads u) urls)"
    by (auto simp: list_all_iff dest: set_takeWhileD)
  moreover have "urls \<noteq> []" using Some by auto
  ultimately show ?thesis using Some
    by (simp add: tryNextUrl_drop tryLoad_drop preloadImageSequence_def)
qed

theorem fallback_first_success_witness:
  "requested (tryNextUrl (\<lambda>u. u = ''c'') [''a'', ''b'', ''c'', ''d''] 0 thumb0) = [''a'', ''b'', ''c'']
   \<and> backgroundImage (tryNextUrl (\<lambda>u. u = ''c'') [''a'', ''b'', ''c'', ''d''] 0 thumb0)
        = ''url('' @ [CHR 0x27] @ ''c'' @ [CHR 0x27] @ '')''
   \<and> \<not> classPlaceholder (tryNextUrl (\<lambda>u. u = ''c'') [''a'', ''b'', ''c'', ''d''] 0 thumb0)
   \<and> preloadImageSequence (\<lambda>u. u = ''c'') [''a'', ''b'', ''c'', ''d''] = ''c''
   \<and> classPlaceholder (tryNextUrl (\<lambda>u. False) [''a'', ''b''] 0 thumb0)
   \<and> requested (tryNextUrl (\<lambda>u. False) [''a'', ''b''] 0 thumb0) = [''a'', ''b'']"
  using fallback_first_success [of "\<lambda>u. u = ''c''" "[''a'', ''b'', ''c'', ''d'']" thumb0]
    fallback_first_success [of "\<lambda>u. False" "[''a'', ''b'']" thumb0]
  by (simp add: thumb0_def)

section \<open>Properties of the meta fields\<close>

lemma foldl_push_new:
  "distinct ys \<Longrightarrow> set xs \<inter> set ys = {} \<Longrightarrow> foldl push_new xs ys = xs @ ys"
proof (induction ys arbitrary: xs)
  case Nil
  then show ?case by simp
next
  case (Cons y ys)
  from Cons.prems have "set (xs @ [y]) \<inter> set ys = {}" and "distinct ys" and "y \<notin> set xs"
    by auto
  with Cons.IH [of "xs @ [y]"] show ?case by (simp add: push_new_def)
qed

lemma concat_map_singletons:
  "list_all (\<lambda>x. g x = [h x]) xs \<Longrightarrow> concat (map g xs) = map h xs"
  by (induction xs) simp_all

lemma find_distinct_key:
  "distinct (map k xs) \<Longrightarrow> x \<in> set xs \<Longrightarrow> find (\<lambda>y. k y = k x) xs = Some x"
proof (induction xs)
  case Nil
  then show ?case by simp
next
  case (Cons a xs)
  show ?case
  proof (cases "x = a")
    case True
    then show ?thesis by simp
  next
    case False
    with Cons.prems have mem: "x \<in> set xs" by simp
    then have "k x \<in> k ` set xs" by simp
    with Cons.prems have "k a \<noteq> k x" by auto
    with Cons.IH mem Cons.prems show ?thesis by simp
  qed
qed

lemma customMetaFieldMap_get_distinct:
  assumes "distinct (map cm_token cms)" and "f \<in> set cms"
  shows "customMetaFieldMap_get cms (cm_token f) = Some f"
proof -
  have "distinct (map cm_token (rev cms))" using assms(1) by (simp add: rev_map [symmetric])
  moreover have "f \<in> set (rev cms)" using assms(2) by simp
  ultimately show ?thesis
    unfolding customMetaFieldMap_get_def by (rule find_distinct_key)
qed

lemma make_custom_fields:
  "cm_token (make_custom B fi) = ''custom:'' @ cm_id (make_custom B fi)"
  "cm_label (make_custom B fi) = str (field_label (fst fi))"
  "cm_value (make_custom B fi) = str (field_value (fst fi))"
  by (simp_all add: make_custom_def Let_def)

lemma mapped_custom_items:
  "map (\<lambda>f. (cm_label f, cm_value f)) (mapped_custom B fs) =
     map (\<lambda>c. (str (field_label c), str (field_value c))) (filter (keep_custom B) fs)"
  unfolding mapped_custom_def Let_def
  by (rule nth_equalityI) (simp_all add: make_custom_fields)

lemma mapped_custom_labels:
  "map cm_label (mapped_custom B fs) = map (\<lambda>c. str (field_label c)) (filter (keep_custom B) fs)"
  unfolding mapped_custom_def Let_def
  by (rule nth_equalityI) (simp_all add: make_custom_fields)

lemma mapped_custom_team:
  "list_ex (\<lambda>f. toUpperCase B (trim B (cm_label f)) = ''TEAM'') (mapped_custom B fs) =
     list_ex (\<lambda>c. toUpperCase B (trim B (str (field_label c))) = ''TEAM'') (filter (keep_custom B) fs)"
proof -
  have "list_ex (\<lambda>f. toUpperCase B (trim B (cm_label f)) = ''TEAM'') (mapped_custom B fs) =
      list_ex (\<lambda>l. toUpperCase B (trim B l) = ''TEAM'') (map cm_label (mapped_custom B fs))"
    by (simp add: list_ex_iff)
  also have "\<dots> = list_ex (\<lambda>l. toUpperCase B (trim B l) = ''TEAM'')
      (map (\<lambda>c. str (field_label c)) (filter (keep_custom B) fs))"
    by (simp only: mapped_custom_labels)
  also have "\<dots> = list_ex (\<lambda>c. toUpperCase B (trim B (str (field_label c))) = ''TEAM'')
      (filter (keep_custom B) fs)"
    by (simp add: list_ex_iff)
  finally show ?thesis .
qed

lemma mapped_custom_member:
  assumes "f \<in> set (mapped_custom B fs)"
  shows "cm_value f \<noteq> [] \<and> (\<exists>x. cm_token f = ''custom:'' @ x)"
proof -
  from assms obtain c i where f: "f = make_custom B (c, i)" and k: "keep_custom B c"
    by (auto simp: mapped_custom_def Let_def dest!: set_zip_leftD)
  from k have "str (field_value c) \<noteq> []"
    by (cases "field_value c") (auto simp: keep_custom_def truthy_def str_def split: if_splits)
  then show ?thesis by (simp add: f make_custom_fields)
qed

lemma customMetaFields_member:
  assumes "f \<in> set (customMetaFields B p)"
  shows "cm_value f \<noteq> [] \<and> (\<exists>x. cm_token f = ''custom:'' @ x)"
proof -
  have tm: "cm_value (teamField p) \<noteq> [] \<and> (\<exists>x. cm_token (teamField p) = ''custom:'' @ x)"
    if "truthy (team p)"
    using that by (cases "team p") (auto simp: teamField_def truthy_def str_def)
  from assms mapped_custom_member tm show ?thesis
    by (cases "custom_fields p") (auto simp: customMetaFields_def Let_def split: if_splits)
qed

lemma customMetaFields_items:
  "map (\<lambda>f. (cm_label f, cm_value f)) (customMetaFields B p) =
     (case custom_fields p of
        None \<Rightarrow> []
      | Some fs \<Rightarrow> map (\<lambda>c. (str (field_label c), str (field_value c))) (filter (keep_custom B) fs))
     @ (if truthy (team p)
          \<and> \<not> (case custom_fields p of
                   None \<Rightarrow> False
                 | Some fs \<Rightarrow>
                     list_ex (\<lambda>c. toUpperCase B (trim B (str (field_label c))) = ''TEAM'')
                       (filter (keep_custom B) fs))
        then [(''TEAM'', str (team p))] else [])"
  by (cases "custom_fields p")
    (simp_all add: customMetaFields_def Let_def teamField_def mapped_custom_items
      mapped_custom_team)

lemma token_not_base:
  "map_of baseMetaFields (''custom:'' @ x) = None"
  "''custom:'' @ x \<notin> set (map fst baseMetaFields)"
  by (simp_all add: baseMetaFields_def)

lemma render_base_keys:
  "concat (map (render_key p cms) (map fst baseMetaFields)) =
     meta_item ''LOCATION'' (location p) @ meta_item ''DURATION'' (duration p)
     @ meta_item ''PROGRAM'' (program p) @ meta_item ''STUDIO'' (studio p)"
  by (simp add: baseMetaFields_def render_key_def project_get_def meta_item_def)

lemma meta_item_nonempty: "list_all (\<lambda>lv. snd lv \<noteq> []) (meta_item l v)"
  by (cases v) (simp_all add: meta_item_def truthy_def str_def)

lemma orderedMetaKeys_default:
  assumes "meta_field_order p = None" and "distinct (map cm_token (customMetaFields B p))"
  shows "orderedMetaKeys B p = map fst baseMetaFields @ map cm_token (customMetaFields B p)"
proof -
  have base: "foldl push_new [] (map fst baseMetaFields) = map fst baseMetaFields"
    using foldl_push_new [of "map fst baseMetaFields" "[]"]
    by (simp add: baseMetaFields_def)
  have "k \<notin> set (map fst baseMetaFields)" if "k \<in> set (map cm_token (customMetaFields B p))" for k
  proof -
    from that obtain f where "f \<in> set (customMetaFields B p)" and "k = cm_token f" by auto
    with customMetaFields_member [of f B p] obtain x where "k = ''custom:'' @ x" by auto
    then show ?thesis using token_not_base(2) [of x] by simp
  qed
  then have "set (map fst baseMetaFields) \<inter> set (map cm_token (customMetaFields B p)) = {}"
    by blast
  from foldl_push_new [OF assms(2) this] show ?thesis
    by (simp add: orderedMetaKeys_def Let_def assms(1) base)
qed

lemma render_custom_tokens:
  assumes "distinct (map cm_token (customMetaFields B p))"
  shows "concat (map (render_key p (customMetaFields B p)) (map cm_token (customMetaFields B p)))
     = map (\<lambda>f. (cm_label f, cm_value f)) (customMetaFields B p)"
proof -
  have one: "render_key p (customMetaFields B p) (cm_token f) = [(cm_label f, cm_value f)]"
    if "f \<in> set (customMetaFields B p)" for f
  proof -
    from customMetaFields_member [OF that] obtain x where
      v: "cm_value f \<noteq> []" and tk: "cm_token f = ''custom:'' @ x"
      by blast
    have "map_of baseMetaFields (cm_token f) = None"
      unfolding tk by (rule token_not_base(1))
    moreover note customMetaFieldMap_get_distinct [OF assms that]
    ultimately show ?thesis using v by (simp add: render_key_def)
  qed
  have "concat (map (\<lambda>f. render_key p (customMetaFields B p) (cm_token f)) (customMetaFields B p))
      = map (\<lambda>f. (cm_label f, cm_value f)) (customMetaFields B p)"
    by (rule concat_map_singletons) (simp add: list_all_iff one)
  then show ?thesis by (simp add: o_def)
qed

text \<open>
  C4 (as amended). For a project record without \<open>meta_field_order\<close> whose custom
  fields get different tokens (different ids) and that has a slug or a title, the meta
  items are, in this order: LOCATION, DURATION, PROGRAM, STUDIO; then the custom fields
  in the order of the record, those with an empty or missing label or value and those
  whose label is one of the four base labels left out; then TEAM, from the legacy
  \<open>team\<close> property, unless a custom field has that label; then YEAR, MEDIUM, SERIES.
  A base field, TEAM, YEAR, MEDIUM or SERIES whose value is empty or absent has no item,
  and no item has an empty value. A record with neither slug nor title has no meta
  items: rendering it throws a TypeError. So the custom fields come before YEAR, MEDIUM
  and SERIES, not after them. This holds whatever \<open>trim\<close> and \<open>toUpperCase\<close> do to a
  label; a record with \<open>meta_field_order\<close> is not covered, and the second record of the
  counterexample shows that such an order can put a custom field before LOCATION.
\<close>

theorem meta_items_order:
  assumes "meta_field_order p = None" and "distinct (map cm_token (customMetaFields B p))"
  shows
    "metaItems B p =
       (if slug_throws p then Inl TypeError
        else Inr
         (meta_item ''LOCATION'' (location p) @ meta_item ''DURATION'' (duration p)
          @ meta_item ''PROGRAM'' (program p) @ meta_item ''STUDIO'' (studio p)
          @ (case custom_fields p of
               None \<Rightarrow> []
             | Some fs \<Rightarrow>
                 map (\<lambda>c. (str (field_label c), str (field_value c)))
                   (filter (keep_custom B) fs))
          @ (if truthy (team p)
               \<and> \<not> (case custom_fields p of
                        None \<Rightarrow> False
                      | Some fs \<Rightarrow>
                          list_ex (\<lambda>c. toUpperCase B (trim B (str (field_label c))) = ''TEAM'')
                            (filter (keep_custom B) fs))
             then [(''TEAM'', str (team p))] else [])
          @ meta_item ''YEAR'' (year p) @ meta_item ''MEDIUM'' (medium p)
          @ meta_item ''SERIES'' (series p)))
     \<and> (case metaItems B p of
          Inl e \<Rightarrow> slug_throws p
        | Inr items \<Rightarrow> \<not> slug_throws p \<and> list_all (\<lambda>lv. snd lv \<noteq> []) items)"
proof -
  let ?custom = "map (\<lambda>f. (cm_label f, cm_value f)) (customMetaFields B p)"
  let ?items = "(meta_item ''LOCATION'' (location p) @ meta_item ''DURATION'' (duration p)
       @ meta_item ''PROGRAM'' (program p) @ meta_item ''STUDIO'' (studio p))
      @ ?custom
      @ meta_item ''YEAR'' (year p) @ meta_item ''MEDIUM'' (medium p)
      @ meta_item ''SERIES'' (series p)"
  have items: "metaItems B p = (if slug_throws p then Inl TypeError else Inr ?items)"
    unfolding metaItems_def Let_def orderedMetaKeys_default [OF assms] map_append concat_append
      render_custom_tokens [OF assms(2)] render_base_keys
    by simp
  have cv: "list_all (\<lambda>lv. snd lv \<noteq> []) ?custom"
    using customMetaFields_member [of _ B p] by (auto simp: list_all_iff)
  have nonempty: "list_all (\<lambda>lv. snd lv \<noteq> []) ?items"
    using cv meta_item_nonempty by simp
  from items nonempty show ?thesis
    unfolding customMetaFields_items by simp
qed

lemma with_client_default:
  "meta_field_order with_client = None"
  "distinct (map cm_token (customMetaFields ascii with_client))"
  by code_simp+

theorem meta_items_order_witness:
  "metaItems ascii with_client =
     Inr [(''LOCATION'', ''Seoul''), (''CLIENT'', ''City''), (''YEAR'', ''2024'')]"
proof -
  note w = meta_items_order [OF with_client_default, THEN conjunct1]
  have "(if slug_throws with_client then Inl TypeError
        else Inr
         (meta_item ''LOCATION'' (location with_client)
          @ meta_item ''DURATION'' (duration with_client)
          @ meta_item ''PROGRAM'' (program with_client)
          @ meta_item ''STUDIO'' (studio with_client)
          @ (case custom_fields with_client of
               None \<Rightarrow> []
             | Some fs \<Rightarrow>
                 map (\<lambda>c. (str (field_label c), str (field_value c)))
                   (filter (keep_custom ascii) fs))
          @ (if truthy (team with_client)
               \<and> \<not> (case custom_fields with_client of
                        None \<Rightarrow> False
                      | Some fs \<Rightarrow>
                          list_ex (\<lambda>c. toUpperCase ascii (trim ascii (str (field_label c))) = ''TEAM'')
                            (filter (keep_custom ascii) fs))
             then [(''TEAM'', str (team with_client))] else [])
          @ meta_item ''YEAR'' (year with_client) @ meta_item ''MEDIUM'' (medium with_client)
          @ meta_item ''SERIES'' (series with_client)))
     = Inr [(''LOCATION'', ''Seoul''), (''CLIENT'', ''City''), (''YEAR'', ''2024'')]"
    by code_simp
  with w show ?thesis by (rule trans)
qed

theorem meta_items_order_counterexample:
  "metaItems ascii with_client =
     Inr [(''LOCATION'', ''Seoul''), (''CLIENT'', ''City''), (''YEAR'', ''2024'')]
   \<and> metaItems ascii with_order =
     Inr [(''CLIENT'', ''City''), (''LOCATION'', ''Seoul''), (''YEAR'', ''2024'')]"
  by code_simp

section \<open>Properties of the newline escaping\<close>

lemma escape_match_Nil: "escape_match [] = []"
  by (simp add: escape_match_def replace_newlines_def remove_returns_def)

lemma escape_match_Cons:
  "escape_match (c # m) =
     (if c = 10 then [92, 110] else if c = 13 then [] else [c]) @ escape_match m"
  by (simp add: escape_match_def replace_newlines_def remove_returns_def)

lemma escape_match_append: "escape_match (m @ m') = escape_match m @ escape_match m'"
  by (simp add: escape_match_def replace_newlines_def remove_returns_def)

lemma map_option_apfst_Some:
  "map_option (apfst f) x = Some (s, r) \<longleftrightarrow> (\<exists>s'. x = Some (s', r) \<and> s = f s')"
  by (cases x) auto

lemma is_hex_plain: "is_hex h \<Longrightarrow> h \<noteq> 34 \<and> h \<noteq> 92 \<and> h \<noteq> 10 \<and> h \<noteq> 13"
  by (auto simp: is_hex_def)

lemma escape_char_plain:
  "escape_char e = Some d \<Longrightarrow> \<not> line_terminator e \<and> e \<noteq> 10 \<and> e \<noteq> 13"
  by (auto simp: escape_char_def line_terminator_def split: if_splits)

text \<open>
  A string literal of the payload is one match of the pattern, and the replacement of
  the match is a string literal of JSON with the same value.
\<close>

definition same_literal :: "code_units \<Rightarrow> code_units \<Rightarrow> code_units \<Rightarrow> bool" where
  "same_literal cs s rest =
     (\<exists>body. span_end cs = Some (body, rest)
        \<and> (\<forall>X. lex_string False (escape_match body @ 34 # X) = Some (s, X)))"

lemma same_literal_quote: "same_literal (34 # cs) [] cs"
  by (simp add: same_literal_def escape_match_Nil)

lemma same_literal_plain:
  assumes "same_literal cs s rest" and "c \<noteq> 34" and "c \<noteq> 92" and "c \<noteq> 10" and "c \<noteq> 13"
    and "\<not> c < 32"
  shows "same_literal (c # cs) (c # s) rest"
  using assms by (auto simp: same_literal_def escape_match_Cons)

lemma same_literal_newline:
  assumes "same_literal cs s rest"
  shows "same_literal (10 # cs) (10 # s) rest"
  using assms by (auto simp: same_literal_def escape_match_Cons escape_char_def)

lemma same_literal_return:
  assumes "same_literal cs s rest"
  shows "same_literal (13 # cs) s rest"
  using assms by (auto simp: same_literal_def escape_match_Cons)

lemma same_literal_escape:
  assumes "same_literal cs s rest" and "escape_char e = Some d" and "e \<noteq> 117"
  shows "same_literal (92 # e # cs) (d # s) rest"
  using assms escape_char_plain [OF assms(2)]
  by (auto simp: same_literal_def escape_match_Cons)

lemma same_literal_unicode:
  assumes "same_literal cs s rest"
    and "is_hex h1" and "is_hex h2" and "is_hex h3" and "is_hex h4"
  shows "same_literal (92 # 117 # h1 # h2 # h3 # h4 # cs)
     ((((hex_val h1 * 16 + hex_val h2) * 16 + hex_val h3) * 16 + hex_val h4) # s) rest"
  using assms is_hex_plain [OF assms(2)] is_hex_plain [OF assms(3)]
    is_hex_plain [OF assms(4)] is_hex_plain [OF assms(5)]
  by (auto simp: same_literal_def escape_match_Cons line_terminator_def)

lemma lex_string_raw_literal:
  "lex_string True cs = Some (s, rest) \<Longrightarrow> same_literal cs s rest"
proof (induction cs arbitrary: s rule: length_induct)
  case (1 cs)
  note IH = "1.IH" [rule_format]
  from "1.prems" obtain c cs' where cs: "cs = c # cs'" by (cases cs) auto
  consider (quote) "c = 34" | (esc) "c = 92" | (nl) "c = 10" | (cr) "c = 13"
    | (plain) "c \<noteq> 34" "c \<noteq> 92" "c \<noteq> 10" "c \<noteq> 13"
    by blast
  then show ?case
  proof cases
    case quote
    with "1.prems" cs show ?thesis by (simp add: same_literal_quote)
  next
    case nl
    with "1.prems" cs obtain s' where "lex_string True cs' = Some (s', rest)" "s = 10 # s'"
      by (auto simp: map_option_apfst_Some)
    with IH [of cs' s'] cs nl show ?thesis by (simp add: same_literal_newline)
  next
    case cr
    with "1.prems" cs have "lex_string True cs' = Some (s, rest)" by simp
    with IH [of cs' s] cs cr show ?thesis by (simp add: same_literal_return)
  next
    case plain
    with "1.prems" cs obtain s' where "lex_string True cs' = Some (s', rest)" "s = c # s'"
      and "\<not> c < 32"
      by (auto simp: map_option_apfst_Some split: if_splits)
    with IH [of cs' s'] cs plain show ?thesis by (simp add: same_literal_plain)
  next
    case esc
    with "1.prems" cs obtain e es where es: "cs' = e # es" by (cases cs') auto
    show ?thesis
    proof (cases "e = 117")
      case False
      with "1.prems" cs esc es obtain d s' where
        "escape_char e = Some d" "lex_string True es = Some (s', rest)" "s = d # s'"
        by (auto simp: map_option_apfst_Some split: option.splits)
      with IH [of es s'] cs es esc False show ?thesis by (simp add: same_literal_escape)
    next
      case True
      with "1.prems" cs esc es obtain h1 h2 h3 h4 r s' where
        r: "es = h1 # h2 # h3 # h4 # r"
        and hx: "is_hex h1" "is_hex h2" "is_hex h3" "is_hex h4"
        and s': "lex_string True r = Some (s', rest)"
          "s = (((hex_val h1 * 16 + hex_val h2) * 16 + hex_val h3) * 16 + hex_val h4) # s'"
        by (auto simp: map_option_apfst_Some split: list.splits if_splits)
      from IH [of r s'] s'(1) cs es r have "same_literal r s' rest" by simp
      from same_literal_unicode [OF this hx] show ?thesis
        by (simp add: cs es r esc True s'(2))
    qed
  qed
qed

lemma lex_raw_escapeNewlines:
  "lex True t = Some ts \<Longrightarrow> lex False (escapeNewlines t) = Some ts"
proof (induction t arbitrary: ts rule: escapeNewlines.induct)
  case 1
  then show ?case by simp
next
  case (2 c cs)
  show ?case
  proof (cases "c = 34")
    case False
    with "2.prems" obtain ts' where "lex True cs = Some ts'" "ts = Other c # ts'"
      by auto
    with "2.IH"(3) [OF False] False show ?thesis by simp
  next
    case True
    with "2.prems" obtain s rest ts' where
      ls: "lex_string True cs = Some (s, rest)" and lr: "lex True rest = Some ts'"
      and ts: "ts = Str s # ts'"
      by (auto split: option.splits)
    from lex_string_raw_literal [OF ls] obtain body where
      sp: "span_end cs = Some (body, rest)"
      and lit: "\<And>X. lex_string False (escape_match body @ 34 # X) = Some (s, X)"
      by (auto simp: same_literal_def)
    from "2.IH"(2) [OF True sp refl lr] have "lex False (escapeNewlines rest) = Some ts'" .
    with True sp lit ts show ?thesis
      by (simp add: escape_match_Cons escape_match_append escape_match_Nil)
  qed
qed

text \<open>
  C6. Let the payload be well-formed but for raw line feeds and carriage returns inside
  its string literals: read with those allowed it has the token sequence \<open>ts\<close>, in
  which every raw line feed is a line feed of the string value it stands in, and the
  grammar \<open>G\<close> of JSON makes the records \<open>ps\<close> of \<open>ts\<close>. Then \<open>JSON.parse\<close> of
  the text that \<open>init\<close> produces succeeds: its tokens are the same \<open>ts\<close>, the result
  is \<open>ps\<close>, and \<open>projectsData\<close> is set to \<open>ps\<close>.
\<close>

theorem newline_escape_parses:
  assumes "spec_tokens jsonText = Some ts" and "G ts = Some ps"
  shows "JSON_tokens (escapeNewlines jsonText) = Some ts
     \<and> JSON_parse G (escapeNewlines jsonText) = Some ps
     \<and> parseProjectsData G jsonText = ps"
proof -
  from assms(1) have "lex False (escapeNewlines jsonText) = Some ts"
    unfolding spec_tokens_def by (rule lex_raw_escapeNewlines)
  with assms(2) show ?thesis
    by (simp add: JSON_tokens_def JSON_parse_def parseProjectsData_def)
qed

lemma payload_tokens:
  "spec_tokens payload =
     Some [Other 91, Other 123, Str [116], Other 58, Str [97, 10, 98], Other 125, Other 93]"
  by code_simp

theorem newline_escape_parses_witness:
  "JSON_tokens payload = None
   \<and> escapeNewlines payload = [91, 123, 34, 116, 34, 58, 34, 97, 92, 110, 98, 34, 125, 93]
   \<and> parseProjectsData literals payload = [[116], [97, 10, 98]]"
proof -
  have g: "literals [Other 91, Other 123, Str [116], Other 58, Str [97, 10, 98], Other 125,
      Other 93] = Some [[116], [97, 10, 98]]"
    by simp
  have a: "JSON_tokens payload = None" by code_simp
  have b: "escapeNewlines payload = [91, 123, 34, 116, 34, 58, 34, 97, 92, 110, 98, 34, 125, 93]"
    by code_simp
  from newline_escape_parses [where G = literals, OF payload_tokens g] a b show ?thesis by simp
qed

end
